(* ===== verification/Prelude.thy ===== *)
theory Prelude
  imports Main
begin

text \<open>
  Shared vocabulary of the development: the JavaScript idioms the client code relies on,
  written as HOL functions with the lemmas the component theories use.
  \<^item> JS truthiness of an optional string and the \<open>a || b || 'default'\<close> chains that
    pick an error message;
  \<^item> plain JS objects (\<open>{...a, ...b}\<close>, \<open>{...prev, [k]: v}\<close>) as association lists
    whose key order is insertion order and whose update keeps a key in place;
  \<^item> \<open>String.prototype.trim\<close> on ASCII whitespace;
  \<^item> removal of the \<open>i\<close>-th element of a list (an in-flight request completing).
\<close>

named_theorems js_simps "lemmas on the JavaScript idioms, for simp"
named_theorems state_simps "characteristic equations of the component handlers"

subsection \<open>Truthiness and the or-chain\<close>

text \<open>
  A field read with optional chaining (\<open>x?.f\<close>, \<open>x?.[0]\<close>) is \<open>None\<close> for
  \<open>undefined\<close>. In \<open>a || b\<close> the empty string is falsy as well.
\<close>

fun js_truthy_str :: "string option \<Rightarrow> bool" where
  "js_truthy_str None = False"
| "js_truthy_str (Some s) = (s \<noteq> [])"

fun js_or_default :: "string option list \<Rightarrow> string \<Rightarrow> string" where
  "js_or_default [] d = d"
| "js_or_default (x # xs) d = (if js_truthy_str x then the x else js_or_default xs d)"

text \<open>\<open>arr?.[0]\<close> on an optional array of strings.\<close>

fun js_first :: "string list option \<Rightarrow> string option" where
  "js_first None = None"
| "js_first (Some []) = None"
| "js_first (Some (x # _)) = Some x"

lemma js_or_default_cases [js_simps]:
  "js_or_default xs d = d \<or> (\<exists>s\<in>set xs. js_truthy_str s \<and> js_or_default xs d = the s)"
  by (induction xs) auto

lemma js_or_default_nonempty [js_simps]:
  "d \<noteq> [] \<Longrightarrow> js_or_default xs d \<noteq> []"
proof (induction xs)
  case Nil
  then show ?case by simp
next
  case (Cons x xs)
  then show ?case by (cases x) auto
qed

lemma js_or_default_all_falsy [js_simps]:
  "(\<forall>x\<in>set xs. \<not> js_truthy_str x) \<Longrightarrow> js_or_default xs d = d"
  by (induction xs) auto

subsection \<open>JS objects as association lists\<close>

text \<open>
  Assigning a property keeps an existing key at its position and appends a new one at the
  end, as the insertion-ordered property list of a plain JS object does.
\<close>

fun obj_set :: "'k \<Rightarrow> 'v \<Rightarrow> ('k \<times> 'v) list \<Rightarrow> ('k \<times> 'v) list" where
  "obj_set k v [] = [(k, v)]"
| "obj_set k v ((k', v') # ps) = (if k = k' then (k, v) # ps else (k', v') # obj_set k v ps)"

text \<open>\<open>{...a, ...b}\<close>: the properties of \<open>b\<close> are assigned onto a copy of \<open>a\<close>.\<close>

definition obj_spread :: "('k \<times> 'v) list \<Rightarrow> ('k \<times> 'v) list \<Rightarrow> ('k \<times> 'v) list" where
  "obj_spread a b = fold (\<lambda>(k, v) acc. obj_set k v acc) b a"

lemma map_of_obj_set [js_simps]: "map_of (obj_set k v ps) = (map_of ps)(k \<mapsto> v)"
  by (induction ps) (auto simp: fun_eq_iff)

lemma keys_obj_set_present: "k \<in> set (map fst ps) \<Longrightarrow> map fst (obj_set k v ps) = map fst ps"
proof (induction ps)
  case Nil
  then show ?case by simp
next
  case (Cons p ps)
  then show ?case by (cases p) auto
qed

lemma keys_obj_set_absent: "k \<notin> set (map fst ps) \<Longrightarrow> map fst (obj_set k v ps) = map fst ps @ [k]"
  by (induction ps) auto

lemma keys_obj_set [js_simps]: "map fst (obj_set k v ps) =
    (if k \<in> set (map fst ps) then map fst ps else map fst ps @ [k])"
  by (simp add: keys_obj_set_present keys_obj_set_absent)

lemma distinct_obj_set [js_simps]:
  "distinct (map fst ps) \<Longrightarrow> distinct (map fst (obj_set k v ps))"
  by (simp add: keys_obj_set)

lemma obj_spread_Nil [simp]: "obj_spread a [] = a"
  by (simp add: obj_spread_def)

lemma obj_spread_Cons [simp]: "obj_spread a ((k, v) # b) = obj_spread (obj_set k v a) b"
  by (simp add: obj_spread_def)

text \<open>A later property of \<open>b\<close> wins, hence the \<open>rev\<close>: \<open>map_of\<close> reads the first.\<close>

lemma map_of_obj_spread [js_simps]: "map_of (obj_spread a b) = map_of a ++ map_of (rev b)"
proof (induction b arbitrary: a)
  case Nil
  then show ?case by simp
next
  case (Cons p b)
  obtain k v where p: "p = (k, v)" by fastforce
  have "map_of (obj_spread a (p # b)) = map_of (obj_set k v a) ++ map_of (rev b)"
    using Cons.IH p by simp
  also have "\<dots> = map_of a ++ map_of (rev (p # b))"
    using p by (simp add: map_of_obj_set fun_eq_iff map_add_def split: option.splits)
  finally show ?case .
qed

lemma distinct_obj_spread [js_simps]:
  "distinct (map fst a) \<Longrightarrow> distinct (map fst (obj_spread a b))"
  by (induction b arbitrary: a) (auto simp: distinct_obj_set)

lemma fst_set_obj_set [js_simps]: "set (map fst (obj_set k v ps)) = insert k (set (map fst ps))"
proof (induction ps)
  case Nil
  then show ?case by simp
next
  case (Cons p ps)
  obtain k' v' where "p = (k', v')" by fastforce
  with Cons show ?case by (simp add: insert_commute)
qed

lemma keys_obj_spread [js_simps]:
  "set (map fst (obj_spread a b)) = set (map fst a) \<union> set (map fst b)"
proof (induction b arbitrary: a)
  case Nil
  then show ?case by simp
next
  case (Cons p b)
  obtain k v where "p = (k, v)" by fastforce
  with Cons.IH [of "obj_set k v a"] show ?case
    by (simp only: obj_spread_Cons fst_set_obj_set list.map set_simps fst_conv) auto
qed

subsection \<open>Trimming\<close>

text \<open>
  \<open>String.prototype.trim\<close> removes leading and trailing white space. Characters are
  bytes here, so the white space modelled is the ASCII one: space, tab, line feed,
  vertical tab, form feed and carriage return.
\<close>

definition js_is_space :: "char \<Rightarrow> bool" where
  "js_is_space c \<longleftrightarrow> c \<in> set [CHR '' '', CHR 0x09, CHR 0x0A, CHR 0x0B, CHR 0x0C, CHR 0x0D]"

definition js_trim :: "string \<Rightarrow> string" where
  "js_trim s = rev (dropWhile js_is_space (rev (dropWhile js_is_space s)))"

lemma all_dropWhile_iff: "(\<forall>c\<in>set (dropWhile P s). P c) \<longleftrightarrow> dropWhile P s = []"
proof (cases "dropWhile P s")
  case Nil
  then show ?thesis by (simp del: dropWhile_eq_Nil_conv)
next
  case (Cons a l)
  then have "\<not> P a" using hd_dropWhile [of P s] by simp
  with Cons show ?thesis by auto
qed

lemma js_trim_empty_iff [js_simps]: "js_trim s = [] \<longleftrightarrow> (\<forall>c\<in>set s. js_is_space c)"
proof -
  have "js_trim s = [] \<longleftrightarrow> (\<forall>c\<in>set (dropWhile js_is_space s). js_is_space c)"
    by (simp add: js_trim_def)
  also have "\<dots> \<longleftrightarrow> dropWhile js_is_space s = []"
    by (rule all_dropWhile_iff)
  also have "\<dots> \<longleftrightarrow> (\<forall>c\<in>set s. js_is_space c)"
    by simp
  finally show ?thesis .
qed

subsection \<open>Numbers in URLs\<close>

text \<open>A template literal \<open>`${n}`\<close> of a non-negative integer: its decimal digits.\<close>

fun js_num_str :: "nat \<Rightarrow> string" where
  "js_num_str n =
     (if n < 10 then [char_of (48 + n)] else js_num_str (n div 10) @ [char_of (48 + n mod 10)])"

declare js_num_str.simps [simp del]

lemma js_num_str_nonempty [js_simps]: "js_num_str n \<noteq> []"
  by (subst js_num_str.simps) simp

text \<open>The digit characters, for evaluating \<open>js_num_str\<close> on literals by \<open>simp\<close>.\<close>

lemma js_digit_chars [js_simps]:
  "char_of (48::nat) = CHR ''0''" "char_of (49::nat) = CHR ''1''" "char_of (50::nat) = CHR ''2''"
  "char_of (51::nat) = CHR ''3''" "char_of (52::nat) = CHR ''4''" "char_of (53::nat) = CHR ''5''"
  "char_of (54::nat) = CHR ''6''" "char_of (55::nat) = CHR ''7''" "char_of (56::nat) = CHR ''8''"
  "char_of (57::nat) = CHR ''9''"
  by code_simp+

subsection \<open>Removing the element at an index\<close>

fun remove_nth :: "nat \<Rightarrow> 'a list \<Rightarrow> 'a list" where
  "remove_nth _ [] = []"
| "remove_nth 0 (x # xs) = xs"
| "remove_nth (Suc i) (x # xs) = x # remove_nth i xs"

text \<open>The element at an index, if there is one.\<close>

definition nth_opt :: "'a list \<Rightarrow> nat \<Rightarrow> 'a option" where
  "nth_opt xs i = (if i < length xs then Some (xs ! i) else None)"

lemma nth_opt_simps [simp]:
  "nth_opt [] i = None"
  "nth_opt (x # xs) 0 = Some x"
  "nth_opt (x # xs) (Suc i) = nth_opt xs i"
  by (simp_all add: nth_opt_def)

lemma nth_opt_Some [js_simps]: "nth_opt xs i = Some x \<longleftrightarrow> i < length xs \<and> xs ! i = x"
  by (auto simp: nth_opt_def)

lemma nth_opt_in_set: "nth_opt xs i = Some x \<Longrightarrow> x \<in> set xs"
  by (auto simp: nth_opt_def split: if_splits)

lemma set_remove_nth_keep: "nth_opt xs i = Some x \<Longrightarrow> y \<in> set xs \<Longrightarrow> y \<noteq> x \<Longrightarrow> y \<in> set (remove_nth i xs)"
proof (induction i xs rule: remove_nth.induct)
  case (1 uu)
  then show ?case by simp
next
  case (2 x xs)
  then show ?case by simp
next
  case (3 i x xs)
  then show ?case by auto
qed

lemma remove_nth_eq [js_simps]: "remove_nth i xs = take i xs @ drop (Suc i) xs"
  by (induction i xs rule: remove_nth.induct) auto

lemma length_remove_nth [simp]: "i < length xs \<Longrightarrow> length (remove_nth i xs) = length xs - 1"
  by (simp add: remove_nth_eq)

lemma set_remove_nth_subset [js_simps]: "set (remove_nth i xs) \<subseteq> set xs"
  by (induction i xs rule: remove_nth.induct) auto

end
