(* ===== verification/Urls.thy ===== *)
theory Urls
  imports Prelude
begin

text \<open>
  The URLs the client builds. \<open>fetchPosts\<close> in src/blog/src/pages/Home.jsx sends
  \<open>`/posts/?${new URLSearchParams(query)}`\<close>: the query object serialized in the
  \<open>application/x-www-form-urlencoded\<close> format, each key and value byte-encoded (a
  string is its sequence of UTF-8 bytes: space becomes \<open>+\<close>, the bytes
  \<open>*-._\<close>, digits and letters stay, every other byte becomes \<open>%XX\<close> with upper
  case hex digits), pairs joined by \<open>&\<close>, key and value by \<open>=\<close>. The server reads
  the query back by the inverse procedure (\<open>parse_query\<close>, the reference for the round
  trip).
\<close>

subsection \<open>Serialization\<close>

definition url_unreserved :: "char \<Rightarrow> bool" where
  "url_unreserved c \<longleftrightarrow>
     (let n = of_char c :: nat in
      (48 \<le> n \<and> n \<le> 57) \<or> (65 \<le> n \<and> n \<le> 90) \<or> (97 \<le> n \<and> n \<le> 122) \<or> n \<in> {42, 45, 46, 95})"

definition hex_digit :: "nat \<Rightarrow> char" where
  "hex_digit d = (if d < 10 then char_of (48 + d) else char_of (55 + d))"

definition url_encode_char :: "char \<Rightarrow> string" where
  "url_encode_char c =
     (if c = CHR '' '' then ''+''
      else if url_unreserved c then [c]
      else [CHR ''%'', hex_digit (of_char c div 16), hex_digit (of_char c mod 16)])"

definition url_encode :: "string \<Rightarrow> string" where
  "url_encode s = concat (map url_encode_char s)"

text \<open>Strings joined with a separator, as \<open>Array.prototype.join\<close> does.\<close>

fun join_with :: "string \<Rightarrow> string list \<Rightarrow> string" where
  "join_with sep [] = []"
| "join_with sep [w] = w"
| "join_with sep (w # v # ws) = w @ sep @ join_with sep (v # ws)"

text \<open>\<open>URLSearchParams.toString()\<close> on the entries of the query object, in order.\<close>

definition form_urlencode :: "(string \<times> string) list \<Rightarrow> string" where
  "form_urlencode q = join_with ''&'' (map (\<lambda>(k, v). url_encode k @ ''='' @ url_encode v) q)"

text \<open>The URL of a feed request: \<open>`/posts/?${queryParams}`\<close>.\<close>

definition fetch_url :: "(string \<times> string) list \<Rightarrow> string" where
  "fetch_url q = ''/posts/?'' @ form_urlencode q"

subsection \<open>Reading a query back\<close>

fun hex_val :: "char \<Rightarrow> nat option" where
  "hex_val c =
     (let n = of_char c :: nat in
      if 48 \<le> n \<and> n \<le> 57 then Some (n - 48)
      else if 65 \<le> n \<and> n \<le> 70 then Some (n - 55) else None)"

fun url_decode :: "string \<Rightarrow> string option" where
  "url_decode [] = Some []"
| "url_decode (c # cs) =
     (if c = CHR ''+'' then map_option (Cons CHR '' '') (url_decode cs)
      else if c = CHR ''%'' then
        (case cs of
           a # b # rest \<Rightarrow>
             (case (hex_val a, hex_val b) of
                (Some x, Some y) \<Rightarrow> map_option (Cons (char_of (16 * x + y))) (url_decode rest)
              | _ \<Rightarrow> None)
         | _ \<Rightarrow> None)
      else map_option (Cons c) (url_decode cs))"

fun split_on :: "char \<Rightarrow> string \<Rightarrow> string list" where
  "split_on d [] = [[]]"
| "split_on d (c # cs) =
     (if c = d then [] # split_on d cs else (let ws = split_on d cs in (c # hd ws) # tl ws))"

definition decode_pair :: "string \<Rightarrow> (string \<times> string) option" where
  "decode_pair w =
     (case (url_decode (takeWhile (\<lambda>c. c \<noteq> CHR ''='') w),
            url_decode (drop 1 (dropWhile (\<lambda>c. c \<noteq> CHR ''='') w))) of
        (Some k, Some v) \<Rightarrow> Some (k, v)
      | _ \<Rightarrow> None)"

definition parse_query :: "string \<Rightarrow> (string \<times> string) list option" where
  "parse_query s = (if s = [] then Some [] else those (map decode_pair (split_on CHR ''&'' s)))"

text \<open>The characters a serialized query may contain.\<close>

definition url_safe :: "char \<Rightarrow> bool" where
  "url_safe c \<longleftrightarrow> url_unreserved c \<or> c = CHR ''+'' \<or> c = CHR ''%''"

subsection \<open>Lemmas\<close>

lemma of_char_of_small: "n < 256 \<Longrightarrow> of_char (char_of n :: char) = (n :: nat)"
  by (simp add: of_char_of)

lemma hex_digit_small: "d < 16 \<Longrightarrow> of_char (hex_digit d) = (if d < 10 then 48 + d else 55 + d)"
  by (simp add: hex_digit_def of_char_of_small)

lemma hex_val_hex_digit: "d < 16 \<Longrightarrow> hex_val (hex_digit d) = Some d"
  by (simp add: hex_digit_small Let_def)

lemma hex_digit_not_sep: "d < 16 \<Longrightarrow> hex_digit d \<noteq> CHR ''&'' \<and> hex_digit d \<noteq> CHR ''=''"
proof -
  assume d: "d < 16"
  have "of_char (hex_digit d) \<noteq> (of_char CHR ''&'' :: nat) \<and> of_char (hex_digit d) \<noteq> (of_char CHR ''='' :: nat)"
    using d by (simp add: hex_digit_small)
  then show ?thesis by auto
qed

lemma of_char_hex_places: "of_char c div 16 < (16::nat)" "of_char c mod 16 < (16::nat)"
proof -
  have "of_char c < (256::nat)" by simp
  then show "of_char c div 16 < (16::nat)" by (simp add: less_mult_imp_div_less)
qed simp

lemma unreserved_not_special:
  "url_unreserved c \<Longrightarrow> c \<noteq> CHR ''+'' \<and> c \<noteq> CHR ''%'' \<and> c \<noteq> CHR ''&'' \<and> c \<noteq> CHR ''=''"
  by (auto simp: url_unreserved_def)

lemma url_decode_encode_char:
  "url_decode (url_encode_char c @ r) = map_option (Cons c) (url_decode r)"
proof -
  let ?n = "of_char c :: nat"
  have n: "?n < 256" by simp
  show ?thesis
  proof (cases "c = CHR '' '' \<or> url_unreserved c")
    case True
    then show ?thesis using unreserved_not_special [of c] by (auto simp: url_encode_char_def)
  next
    case False
    have "16 * (?n div 16) + ?n mod 16 = ?n" by simp
    then have "char_of (16 * (?n div 16) + ?n mod 16) = c" by simp
    with False show ?thesis
      by (simp add: url_encode_char_def hex_val_hex_digit of_char_hex_places del: hex_val.simps)
  qed
qed

lemma url_decode_encode: "url_decode (url_encode s @ r) = map_option ((@) s) (url_decode r)"
proof (induction s)
  case Nil
  then show ?case by (simp add: url_encode_def option.map_ident)
next
  case (Cons c s)
  have "url_decode (url_encode (c # s) @ r) = url_decode (url_encode_char c @ (url_encode s @ r))"
    by (simp add: url_encode_def)
  also have "\<dots> = map_option (Cons c) (url_decode (url_encode s @ r))" by (rule url_decode_encode_char)
  finally show ?case using Cons.IH by (simp add: option.map_comp comp_def)
qed

lemma url_encode_no_sep: "x \<in> set (url_encode s) \<Longrightarrow> x \<noteq> CHR ''&'' \<and> x \<noteq> CHR ''=''"
  using unreserved_not_special hex_digit_not_sep of_char_hex_places
  by (auto simp: url_encode_def url_encode_char_def split: if_splits)

lemma split_on_free: "d \<notin> set w \<Longrightarrow> split_on d w = [w]"
  by (induction w) auto

lemma split_on_append: "d \<notin> set w \<Longrightarrow> split_on d (w @ d # r) = w # split_on d r"
  by (induction w) auto

lemma split_on_join:
  "ws \<noteq> [] \<Longrightarrow> \<forall>w\<in>set ws. d \<notin> set w \<Longrightarrow> split_on d (join_with [d] ws) = ws"
proof (induction ws rule: induct_list012)
  case (2 w)
  then show ?case by (simp add: split_on_free)
next
  case (3 w v ws)
  then show ?case by (simp add: split_on_append)
qed simp

lemma decode_pair_encode: "decode_pair (url_encode k @ ''='' @ url_encode v) = Some (k, v)"
proof -
  have nk: "\<And>x. x \<in> set (url_encode k) \<Longrightarrow> x \<noteq> CHR ''=''" using url_encode_no_sep by blast
  have "takeWhile (\<lambda>c. c \<noteq> CHR ''='') (url_encode k @ ''='' @ url_encode v) = url_encode k"
    using nk by (simp add: takeWhile_append2)
  moreover have "drop 1 (dropWhile (\<lambda>c. c \<noteq> CHR ''='') (url_encode k @ ''='' @ url_encode v)) = url_encode v"
    using nk by (simp add: dropWhile_append2)
  moreover have "url_decode (url_encode s) = Some s" for s
    using url_decode_encode [of s "[]"] by simp
  ultimately show ?thesis by (simp add: decode_pair_def)
qed

lemma those_map_Some: "those (map Some xs) = Some xs"
  by (induction xs) auto

lemma parse_form_urlencode: "parse_query (form_urlencode q) = Some q"
proof (cases q)
  case Nil
  then show ?thesis by (simp add: form_urlencode_def parse_query_def)
next
  case (Cons p ps)
  let ?ws = "map (\<lambda>(k, v). url_encode k @ ''='' @ url_encode v) q"
  have ne: "?ws \<noteq> []" using Cons by simp
  have free: "\<forall>w\<in>set ?ws. CHR ''&'' \<notin> set w" using url_encode_no_sep by fastforce
  have split: "split_on CHR ''&'' (form_urlencode q) = ?ws"
    using split_on_join [OF ne free] by (simp add: form_urlencode_def)
  have nonempty: "form_urlencode q \<noteq> []"
  proof
    assume "form_urlencode q = []"
    with split have "?ws = [[]]" by simp
    then show False by (simp add: Cons split_def)
  qed
  have m: "map decode_pair ?ws = map Some q"
    using decode_pair_encode [simplified] by (simp add: split_def)
  have "parse_query (form_urlencode q) = those (map decode_pair (split_on CHR ''&'' (form_urlencode q)))"
    using nonempty by (simp add: parse_query_def)
  also have "\<dots> = those (map Some q)" by (simp only: split m)
  also have "\<dots> = Some q" by (rule those_map_Some)
  finally show ?thesis .
qed


lemma hex_digit_unreserved: "d < 16 \<Longrightarrow> url_unreserved (hex_digit d)"
  by (simp add: url_unreserved_def hex_digit_small Let_def)

lemma length_url_encode_char: "1 \<le> length (url_encode_char c) \<and> length (url_encode_char c) \<le> 3"
  by (simp add: url_encode_char_def)


text \<open>
  C28. The feed request's URL carries its query losslessly: whatever the search text and
  filters (any characters, including \<open>&\<close>, \<open>=\<close>, \<open>%\<close>, \<open>+\<close> and spaces),
  the server reading the query string after \<open>/posts/?\<close> gets back exactly the entries,
  in order.
\<close>

theorem fetch_url_roundtrip: "\<exists>w. fetch_url q = ''/posts/?'' @ w \<and> parse_query w = Some q"
  by (simp add: fetch_url_def parse_form_urlencode)

text \<open>
  The encoding of a query text is between one and three times its length and uses
  only URL-safe characters (unreserved bytes, \<open>+\<close> and \<open>%\<close>).
\<close>

theorem url_encode_bounds:
  "length s \<le> length (url_encode s) \<and> length (url_encode s) \<le> 3 * length s \<and>
   (\<forall>c\<in>set (url_encode s). url_safe c)"
proof (induction s)
  case Nil
  then show ?case by (simp add: url_encode_def)
next
  case (Cons c s)
  have u: "url_encode (c # s) = url_encode_char c @ url_encode s" by (simp add: url_encode_def)
  have safe: "\<forall>x\<in>set (url_encode_char c). url_safe x"
    using hex_digit_unreserved of_char_hex_places by (auto simp: url_encode_char_def url_safe_def)
  from Cons.IH length_url_encode_char [of c] safe show ?case by (auto simp: u)
qed

subsection \<open>Witnesses\<close>

theorem url_encode_bounds_witness:
  "url_encode ''a&'' = ''a%26'' \<and> list_all url_safe (url_encode ''a&'')"
proof -
  have "url_encode ''a&'' = ''a%26''" by code_simp
  moreover have "list_all url_safe (url_encode ''a&'')"
    using url_encode_bounds [of "''a&''"] by (simp add: list_all_iff)
  ultimately show ?thesis by blast
qed

end
