(* ===== verification/Api.thy ===== *)
theory Api
  imports Urls
begin

text \<open>
  The data the client exchanges with the remote service and the shape of its failures.
  The client module \<open>services/api\<close> (an axios instance imported by every component) is
  not among the sources, so its contract is taken from the specification: a call either
  answers with a payload (\<open>Inr\<close>) or rejects (\<open>Inl\<close>) with an \<open>api_error\<close>, either
  without a response (network failure) or with an HTTP status and a parsed error body.
  The records keep the JSON field names of the payloads the components read.
\<close>

type_synonym url = string
type_synonym post_id = nat
type_synonym user_id = nat

text \<open>\<open>response.data\<close> of \<open>GET /profile/\<close>, and the \<open>user\<close> field of a login answer.\<close>

record user =
  user_id :: user_id
  user_username :: string
  user_email :: string
  user_bio :: string
  user_profile_picture :: "string option"
  user_posts_count :: nat

text \<open>
  A post as listed in a page of \<open>GET /posts/\<close> (the fields the client reads): the
  author is the nested \<open>author\<close> object, of which the client reads \<open>id\<close>,
  \<open>username\<close> and \<open>profile_picture\<close>; \<open>image\<close> may be null.
\<close>

record post =
  post_id :: post_id
  post_author :: user_id
  post_author_username :: string
  post_author_picture :: "string option"
  post_title :: string
  post_caption :: string
  post_image :: "string option"
  post_likes_count :: nat
  post_is_liked :: bool
  post_comments_count :: nat

text \<open>A comment with its nested \<open>user\<close> object (\<open>id\<close>, \<open>username\<close>, \<open>profile_picture\<close>).\<close>

record comment =
  comment_id :: nat
  comment_author :: user_id
  comment_username :: string
  comment_user_picture :: "string option"
  comment_content :: string

text \<open>A page: \<open>{results, next, previous, count}\<close>, \<open>next\<close> an opaque URL.\<close>

record page =
  page_results :: "post list"
  page_next :: "url option"
  page_previous :: "url option"
  page_count :: nat

text \<open>The body of \<open>POST /login/\<close> and \<open>POST /register/\<close> answers.\<close>

record auth_payload =
  ap_user :: user
  ap_access :: string
  ap_refresh :: string

text \<open>The body of \<open>POST /posts/{id}/like/\<close>.\<close>

record like_payload =
  lp_is_liked :: bool
  lp_likes_count :: nat

text \<open>\<open>error.response.data\<close>: the fields the components read with optional chaining.\<close>

record error_body =
  err_non_field_errors :: "string list option"
  err_detail :: "string option"
  err_email :: "string list option"
  err_password :: "string list option"

datatype api_error = NetworkError | HttpError nat error_body

type_synonym 'a api_result = "api_error + 'a"

text \<open>\<open>error.response?.data\<close>: absent when the request got no response.\<close>

fun err_data :: "api_error \<Rightarrow> error_body option" where
  "err_data NetworkError = None"
| "err_data (HttpError _ b) = Some b"

definition err_field :: "(error_body \<Rightarrow> 'a option) \<Rightarrow> api_error \<Rightarrow> 'a option" where
  "err_field f e = (case err_data e of None \<Rightarrow> None | Some b \<Rightarrow> f b)"

lemma err_field_simps [simp]:
  "err_field f NetworkError = None"
  "err_field f (HttpError n b) = f b"
  by (simp_all add: err_field_def)

text \<open>The notifications of \<open>react-hot-toast\<close> the handlers raise, kept in order.\<close>

datatype toast = ToastSuccess string | ToastError string

text \<open>The requests the components send, with their query or body as a property list.\<close>

datatype api_request =
    ApiGet url "(string \<times> string) list"
  | ApiPost url "(string \<times> string) list"
  | ApiPut url "(string \<times> string) list"
  | ApiDelete url

text \<open>
  The endpoints of the remote service (section 6 of the specification) as a typing of
  requests, with the service's trailing-slash paths: a post is addressed by its decimal
  id, the feed's query string must decode to distinct entries among \<open>search\<close>,
  \<open>author\<close> and \<open>ordering\<close>, login carries exactly the credentials.
\<close>

inductive api_typed :: "api_request \<Rightarrow> bool" where
  login: "api_typed (ApiPost ''/login/'' [(''email'', e), (''password'', pw)])"
| register: "api_typed (ApiPost ''/register/'' d)"
| profile_get: "api_typed (ApiGet ''/profile/'' [])"
| profile_put: "api_typed (ApiPut ''/profile/'' d)"
| feed: "parse_query w = Some q \<Longrightarrow> set (map fst q) \<subseteq> {''search'', ''author'', ''ordering''} \<Longrightarrow>
         distinct (map fst q) \<Longrightarrow> api_typed (ApiGet (''/posts/?'' @ w) [])"
| post_get: "api_typed (ApiGet (''/posts/'' @ js_num_str n @ ''/'') [])"
| post_delete: "api_typed (ApiDelete (''/posts/'' @ js_num_str n @ ''/''))"
| like: "api_typed (ApiPost (''/posts/'' @ js_num_str n @ ''/like/'') [])"
| comment: "api_typed (ApiPost (''/posts/'' @ js_num_str n @ ''/comment/'') [(''content'', c)])"

text \<open>
  The request gateway of the specification (section 4.2) classifies every answer. The
  repository has no such classification under src/; the function states the contract
  so that the components' error handling can be compared with it.
\<close>

datatype outcome = Success | ClientError nat | ServerError nat | NetworkFailure | AuthExpired

definition classify :: "'a api_result \<Rightarrow> outcome" where
  "classify r = (case r of
      Inr _ \<Rightarrow> Success
    | Inl NetworkError \<Rightarrow> NetworkFailure
    | Inl (HttpError n _) \<Rightarrow>
        (if n = 401 then AuthExpired else if n < 500 then ClientError n else ServerError n))"

end
