(* ===== verification/Actions.thy ===== *)
theory Actions
  imports Api
begin

text \<open>
  The mutation handlers other than the feed's delete: the like button of
  src/blog/src/components/PostCard.jsx, and the post page
  src/blog/src/pages/PostDetail.jsx (loading the post, its like button, the comment
  form, the delete button). A like button is a client of the remote toggle; the toggles
  of both components are run against one model of the server in a machine that is
  parametric in the client's three handlers (click enabled, click, answer), so that the
  same lemmas serve both clients. The server's toggle is the contract of section 6 of the
  specification (\<open>POST /posts/{id}/like\<close> answers the new \<open>{is_liked, likes_count}\<close>).
\<close>

subsection \<open>Like button of a post card\<close>

record card_state =
  card_is_liked :: bool
  card_likes_count :: nat
  card_loading :: bool
  card_toasts :: "toast list"

definition card_init :: "post \<Rightarrow> card_state" where
  "card_init p =
     \<lparr>card_is_liked = post_is_liked p, card_likes_count = post_likes_count p,
      card_loading = False, card_toasts = []\<rparr>"

definition like_request :: "post_id \<Rightarrow> api_request" where
  "like_request pid = ApiPost (''/posts/'' @ js_num_str pid @ ''/like/'') []"

text \<open>\<open>handleLike\<close> up to its \<open>await\<close>; the flag says whether a user is signed in.\<close>

definition card_like_click :: "bool \<Rightarrow> post_id \<Rightarrow> card_state \<Rightarrow> card_state \<times> api_request list" where
  "card_like_click signed_in pid c =
     (if \<not> signed_in
      then (c\<lparr>card_toasts := card_toasts c @ [ToastError ''Please login to like posts'']\<rparr>, [])
      else (c\<lparr>card_loading := True\<rparr>, [like_request pid]))"

fun card_like_done :: "card_state \<Rightarrow> like_payload api_result \<Rightarrow> card_state" where
  "card_like_done c (Inr r) =
     c\<lparr>card_is_liked := lp_is_liked r, card_likes_count := lp_likes_count r, card_loading := False\<rparr>"
| "card_like_done c (Inl e) =
     c\<lparr>card_toasts := card_toasts c @ [ToastError ''Failed to like post''], card_loading := False\<rparr>"

subsection \<open>The post page\<close>

record post_detail =
  pd_post :: post
  pd_comments :: "comment list"

record detail_state =
  dt_post :: "post option"
  dt_comments :: "comment list"
  dt_new_comment :: string
  dt_loading :: bool
  dt_comment_loading :: bool
  dt_is_liked :: bool
  dt_likes_count :: nat
  dt_toasts :: "toast list"
  dt_nav :: "string option"

definition detail_init :: detail_state where
  "detail_init =
     \<lparr>dt_post = None, dt_comments = [], dt_new_comment = [], dt_loading = True,
      dt_comment_loading = False, dt_is_liked = False, dt_likes_count = 0, dt_toasts = [],
      dt_nav = None\<rparr>"

definition fetch_post_request :: "post_id \<Rightarrow> api_request" where
  "fetch_post_request pid = ApiGet (''/posts/'' @ js_num_str pid @ ''/'') []"

text \<open>\<open>fetchPost\<close> after its \<open>await\<close>.\<close>

fun fetch_post_done :: "detail_state \<Rightarrow> post_detail api_result \<Rightarrow> detail_state" where
  "fetch_post_done d (Inr pd) =
     d\<lparr>dt_post := Some (pd_post pd), dt_comments := pd_comments pd,
       dt_is_liked := post_is_liked (pd_post pd), dt_likes_count := post_likes_count (pd_post pd),
       dt_loading := False\<rparr>"
| "fetch_post_done d (Inl e) =
     d\<lparr>dt_toasts := dt_toasts d @ [ToastError ''Failed to fetch post''], dt_nav := Some ''/'',
       dt_loading := False\<rparr>"

definition detail_like_click :: "bool \<Rightarrow> post_id \<Rightarrow> detail_state \<Rightarrow> detail_state \<times> api_request list" where
  "detail_like_click signed_in pid d =
     (if \<not> signed_in
      then (d\<lparr>dt_toasts := dt_toasts d @ [ToastError ''Please login to like posts'']\<rparr>, [])
      else (d, [like_request pid]))"

fun detail_like_done :: "detail_state \<Rightarrow> like_payload api_result \<Rightarrow> detail_state" where
  "detail_like_done d (Inr r) = d\<lparr>dt_is_liked := lp_is_liked r, dt_likes_count := lp_likes_count r\<rparr>"
| "detail_like_done d (Inl e) = d\<lparr>dt_toasts := dt_toasts d @ [ToastError ''Failed to like post'']\<rparr>"

text \<open>The textarea's \<open>onChange\<close>.\<close>

definition set_new_comment :: "string \<Rightarrow> detail_state \<Rightarrow> detail_state" where
  "set_new_comment txt d = d\<lparr>dt_new_comment := txt\<rparr>"

definition comment_request :: "post_id \<Rightarrow> string \<Rightarrow> api_request" where
  "comment_request pid txt = ApiPost (''/posts/'' @ js_num_str pid @ ''/comment/'') [(''content'', txt)]"

text \<open>
  \<open>handleCommentSubmit\<close> up to its \<open>await\<close>: the request, and the \<open>comments\<close> array
  its continuation closed over.
\<close>

definition comment_submit ::
  "bool \<Rightarrow> post_id \<Rightarrow> detail_state \<Rightarrow> detail_state \<times> (api_request \<times> comment list) option" where
  "comment_submit signed_in pid d =
     (if \<not> signed_in
      then (d\<lparr>dt_toasts := dt_toasts d @ [ToastError ''Please login to comment'']\<rparr>, None)
      else if js_trim (dt_new_comment d) = [] then (d, None)
      else (d\<lparr>dt_comment_loading := True\<rparr>,
            Some (comment_request pid (dt_new_comment d), dt_comments d)))"

fun comment_done :: "detail_state \<Rightarrow> comment list \<Rightarrow> comment api_result \<Rightarrow> detail_state" where
  "comment_done d snapshot (Inr c) =
     d\<lparr>dt_comments := c # snapshot, dt_new_comment := [],
       dt_toasts := dt_toasts d @ [ToastSuccess ''Comment added successfully!''],
       dt_comment_loading := False\<rparr>"
| "comment_done d snapshot (Inl e) =
     d\<lparr>dt_toasts := dt_toasts d @ [ToastError ''Failed to add comment''], dt_comment_loading := False\<rparr>"

text \<open>\<open>handleDeletePost\<close>: only after confirmation; on success back to the feed.\<close>

definition delete_request :: "post_id \<Rightarrow> api_request" where
  "delete_request pid = ApiDelete (''/posts/'' @ js_num_str pid @ ''/'')"

definition detail_delete_click :: "bool \<Rightarrow> post_id \<Rightarrow> api_request list" where
  "detail_delete_click confirmed pid = (if confirmed then [delete_request pid] else [])"

fun detail_delete_done :: "detail_state \<Rightarrow> unit api_result \<Rightarrow> detail_state" where
  "detail_delete_done d (Inr _) =
     d\<lparr>dt_toasts := dt_toasts d @ [ToastSuccess ''Post deleted successfully''], dt_nav := Some ''/''\<rparr>"
| "detail_delete_done d (Inl e) = d\<lparr>dt_toasts := dt_toasts d @ [ToastError ''Failed to delete post'']\<rparr>"

text \<open>
  What the page renders: a spinner while loading, "Post not found" without a post, and
  otherwise the like button, the comment form (for a signed-in user) with its submit
  button disabled while a comment is posting or the trimmed draft is empty.
\<close>

definition detail_shown :: "detail_state \<Rightarrow> bool" where
  "detail_shown d \<longleftrightarrow> \<not> dt_loading d \<and> dt_post d \<noteq> None"

definition comment_submit_enabled :: "detail_state \<Rightarrow> bool" where
  "comment_submit_enabled d \<longleftrightarrow>
     detail_shown d \<and> \<not> (dt_comment_loading d \<or> js_trim (dt_new_comment d) = [])"

text \<open>
  \<open>canEdit\<close>: \<open>user && user.id === post.author.id\<close>, which shows the edit and
  delete buttons of the loaded post.
\<close>

definition detail_can_edit :: "user_id option \<Rightarrow> detail_state \<Rightarrow> bool" where
  "detail_can_edit viewer d \<longleftrightarrow>
     detail_shown d \<and> (case dt_post d of Some p \<Rightarrow> viewer = Some (post_author p) | None \<Rightarrow> False)"

definition count_label :: "nat \<Rightarrow> string \<Rightarrow> string \<Rightarrow> string" where
  "count_label n one many = (if n = 1 then one else many)"

text \<open>
  The counts the page shows: \<open>{likesCount} {likesCount === 1 ? 'Like' : 'Likes'}\<close>
  and \<open>{comments.length} {comments.length === 1 ? 'Comment' : 'Comments'}\<close>.
\<close>

definition detail_counts :: "detail_state \<Rightarrow> (string \<times> string) \<times> (string \<times> string)" where
  "detail_counts d =
     ((js_num_str (dt_likes_count d), count_label (dt_likes_count d) ''Like'' ''Likes''),
      (js_num_str (length (dt_comments d)), count_label (length (dt_comments d)) ''Comment'' ''Comments''))"

subsection \<open>The remote like toggle\<close>

text \<open>The server's like state of one post for the signed-in user.\<close>

record like_server =
  srv_liked :: bool
  srv_count :: nat

definition server_toggle :: "like_server \<Rightarrow> like_server" where
  "server_toggle v =
     (if srv_liked v then v\<lparr>srv_liked := False, srv_count := srv_count v - 1\<rparr>
      else v\<lparr>srv_liked := True, srv_count := Suc (srv_count v)\<rparr>)"

definition server_answer :: "like_server \<Rightarrow> like_payload" where
  "server_answer v = \<lparr>lp_is_liked = srv_liked v, lp_likes_count = srv_count v\<rparr>"

text \<open>
  A client of the toggle together with the server: requests sent and not yet served, and
  answers on their way back, which the client receives in any order. A request either
  reaches the server (which toggles and answers) or fails on the way (the server is
  untouched and the client gets an error).
\<close>

record 'c like_sys =
  lsys_client :: 'c
  lsys_server :: like_server
  lsys_sent :: nat
  lsys_answers :: "like_payload api_result list"

datatype like_event = LClick | LServe | LFail | LDeliver nat

fun like_sys_step ::
  "('c \<Rightarrow> bool) \<Rightarrow> ('c \<Rightarrow> 'c) \<Rightarrow> ('c \<Rightarrow> like_payload api_result \<Rightarrow> 'c) \<Rightarrow>
   'c like_sys \<Rightarrow> like_event \<Rightarrow> 'c like_sys option" where
  "like_sys_step enabled click answered s LClick =
     (if enabled (lsys_client s)
      then Some (s\<lparr>lsys_client := click (lsys_client s), lsys_sent := Suc (lsys_sent s)\<rparr>)
      else None)"
| "like_sys_step enabled click answered s LServe =
     (if 0 < lsys_sent s
      then Some (s\<lparr>lsys_server := server_toggle (lsys_server s), lsys_sent := lsys_sent s - 1,
                   lsys_answers := lsys_answers s @ [Inr (server_answer (server_toggle (lsys_server s)))]\<rparr>)
      else None)"
| "like_sys_step enabled click answered s LFail =
     (if 0 < lsys_sent s
      then Some (s\<lparr>lsys_sent := lsys_sent s - 1, lsys_answers := lsys_answers s @ [Inl NetworkError]\<rparr>)
      else None)"
| "like_sys_step enabled click answered s (LDeliver i) =
     (case nth_opt (lsys_answers s) i of
        None \<Rightarrow> None
      | Some r \<Rightarrow> Some (s\<lparr>lsys_client := answered (lsys_client s) r,
                           lsys_answers := remove_nth i (lsys_answers s)\<rparr>))"

inductive like_reach ::
  "('c \<Rightarrow> bool) \<Rightarrow> ('c \<Rightarrow> 'c) \<Rightarrow> ('c \<Rightarrow> like_payload api_result \<Rightarrow> 'c) \<Rightarrow>
   'c like_sys \<Rightarrow> 'c like_sys \<Rightarrow> bool"
  for enabled click answered s0 where
  start: "like_reach enabled click answered s0 s0"
| step: "like_reach enabled click answered s0 s \<Longrightarrow> like_sys_step enabled click answered s e = Some s' \<Longrightarrow>
         like_reach enabled click answered s0 s'"

fun like_run ::
  "('c \<Rightarrow> bool) \<Rightarrow> ('c \<Rightarrow> 'c) \<Rightarrow> ('c \<Rightarrow> like_payload api_result \<Rightarrow> 'c) \<Rightarrow>
   'c like_sys \<Rightarrow> like_event list \<Rightarrow> 'c like_sys option" where
  "like_run enabled click answered s [] = Some s"
| "like_run enabled click answered s (e # es) =
     (case like_sys_step enabled click answered s e of
        None \<Rightarrow> None
      | Some s' \<Rightarrow> like_run enabled click answered s' es)"

text \<open>
  The two clients, for a signed-in user and the post \<open>pid\<close>. The card's button is
  \<open>disabled={loading}\<close>; the post page's button has no such guard.
\<close>

definition card_like_enabled :: "card_state \<Rightarrow> bool" where
  "card_like_enabled c \<longleftrightarrow> \<not> card_loading c"

definition card_like_sys_step :: "post_id \<Rightarrow> card_state like_sys \<Rightarrow> like_event \<Rightarrow> card_state like_sys option" where
  "card_like_sys_step pid = like_sys_step card_like_enabled (\<lambda>c. fst (card_like_click True pid c)) card_like_done"

definition detail_like_sys_step :: "post_id \<Rightarrow> detail_state like_sys \<Rightarrow> like_event \<Rightarrow> detail_state like_sys option" where
  "detail_like_sys_step pid = like_sys_step detail_shown (\<lambda>d. fst (detail_like_click True pid d)) detail_like_done"

text \<open>The client shows what the server holds.\<close>

definition card_matches :: "card_state \<Rightarrow> like_server \<Rightarrow> bool" where
  "card_matches c v \<longleftrightarrow> card_is_liked c = srv_liked v \<and> card_likes_count c = srv_count v"

definition detail_matches :: "detail_state \<Rightarrow> like_server \<Rightarrow> bool" where
  "detail_matches d v \<longleftrightarrow> dt_is_liked d = srv_liked v \<and> dt_likes_count d = srv_count v"

subsection \<open>The post page machine\<close>

type_synonym detail_sys = "detail_state \<times> bool \<times> comment list list"

definition detail_start :: detail_sys where
  "detail_start = (detail_init, True, [])"

datatype detail_event =
    DFetchDone "post_detail api_result"
  | DType string
  | DSubmit
  | DCommentDone nat "comment api_result"

fun detail_sys_step :: "post_id \<Rightarrow> detail_sys \<Rightarrow> detail_event \<Rightarrow> detail_sys option" where
  "detail_sys_step pid (d, f, cs) (DFetchDone r) =
     (if f then Some (fetch_post_done d r, False, cs) else None)"
| "detail_sys_step pid (d, f, cs) (DType t) =
     (if detail_shown d then Some (set_new_comment t d, f, cs) else None)"
| "detail_sys_step pid (d, f, cs) DSubmit =
     (if comment_submit_enabled d
      then (case comment_submit True pid d of
              (d', None) \<Rightarrow> Some (d', f, cs)
            | (d', Some (req, snap)) \<Rightarrow> Some (d', f, cs @ [snap]))
      else None)"
| "detail_sys_step pid (d, f, cs) (DCommentDone i r) =
     (case nth_opt cs i of
        None \<Rightarrow> None
      | Some snap \<Rightarrow> Some (comment_done d snap r, f, remove_nth i cs))"

inductive detail_reach :: "post_id \<Rightarrow> detail_sys \<Rightarrow> bool" for pid where
  start: "detail_reach pid detail_start"
| step: "detail_reach pid s \<Longrightarrow> detail_sys_step pid s e = Some s' \<Longrightarrow> detail_reach pid s'"

text \<open>
  The comment form between its answers: the mount fetch is in flight exactly while the
  page loads, at most one comment is posting, exactly while the flag is set, and it closed
  over the comments now shown.
\<close>

fun detail_inv :: "detail_sys \<Rightarrow> bool" where
  "detail_inv (d, f, cs) \<longleftrightarrow>
     (f \<longleftrightarrow> dt_loading d) \<and> (f \<longrightarrow> cs = []) \<and> length cs \<le> 1 \<and>
     (dt_comment_loading d \<longleftrightarrow> cs \<noteq> []) \<and> (\<forall>snap\<in>set cs. snap = dt_comments d)"


fun detail_run :: "post_id \<Rightarrow> detail_sys \<Rightarrow> detail_event list \<Rightarrow> detail_sys option" where
  "detail_run pid s [] = Some s"
| "detail_run pid s (e # es) =
     (case detail_sys_step pid s e of None \<Rightarrow> None | Some s' \<Rightarrow> detail_run pid s' es)"

definition demo_comment :: comment where
  "demo_comment = \<lparr>comment_id = 9, comment_author = 1, comment_username = ''ann'',
     comment_user_picture = None, comment_content = ''hi''\<rparr>"

subsection \<open>Invariants and examples\<close>

text \<open>
  The like button of a card between its answers: at most one toggle in flight, the
  loading flag set exactly while one is, and what the card or the answer on its way shows
  agrees with the server.
\<close>

definition card_like_inv :: "card_state like_sys \<Rightarrow> bool" where
  "card_like_inv s \<longleftrightarrow>
     (let c = lsys_client s; v = lsys_server s; n = lsys_sent s + length (lsys_answers s) in
      n \<le> 1 \<and> (card_loading c \<longleftrightarrow> n = 1) \<and> (lsys_sent s = 1 \<longrightarrow> card_matches c v) \<and>
      (\<forall>r\<in>set (lsys_answers s).
         case r of Inr p \<Rightarrow> p = server_answer v | Inl _ \<Rightarrow> card_matches c v) \<and>
      (n = 0 \<longrightarrow> card_matches c v))"

definition demo_liked_post :: post where
  "demo_liked_post = \<lparr>post_id = 5, post_author = 2, post_author_username = ''bob'',
     post_author_picture = None, post_title = ''t'', post_caption = ''c'', post_image = None,
     post_likes_count = 3, post_is_liked = False, post_comments_count = 0\<rparr>"

definition demo_detail :: detail_state where
  "demo_detail = fetch_post_done detail_init (Inr \<lparr>pd_post = demo_liked_post, pd_comments = []\<rparr>)"

definition demo_card_sys :: "card_state like_sys" where
  "demo_card_sys =
     \<lparr>lsys_client = card_init demo_liked_post,
      lsys_server = \<lparr>srv_liked = False, srv_count = 3\<rparr>, lsys_sent = 0, lsys_answers = []\<rparr>"

definition demo_like_server :: like_server where
  "demo_like_server = \<lparr>srv_liked = False, srv_count = 3\<rparr>"


subsection \<open>Lemmas\<close>

lemma like_run_reach:
  "like_reach enabled click answered s0 s \<Longrightarrow> like_run enabled click answered s es = Some s' \<Longrightarrow>
   like_reach enabled click answered s0 s'"
proof (induction es arbitrary: s)
  case Nil
  then show ?case by simp
next
  case (Cons e es)
  then show ?case by (auto intro: like_reach.step split: option.splits)
qed

lemma detail_run_reach: "detail_reach pid s \<Longrightarrow> detail_run pid s es = Some s' \<Longrightarrow> detail_reach pid s'"
proof (induction es arbitrary: s)
  case Nil
  then show ?case by simp
next
  case (Cons e es)
  from Cons.prems(2) obtain s1 where st: "detail_sys_step pid s e = Some s1"
    and r: "detail_run pid s1 es = Some s'"
    by (auto split: option.splits)
  from Cons.prems(1) st have "detail_reach pid s1" by (rule detail_reach.step)
  from this r show ?case by (rule Cons.IH)
qed

lemma nth_opt_single: "nth_opt xs i = Some r \<Longrightarrow> length xs \<le> 1 \<Longrightarrow> xs = [r] \<and> i = 0"
  by (cases xs) (auto simp: nth_opt_def split: if_splits)

lemma card_like_inv_idle:
  assumes "card_like_inv s" and "\<not> card_loading (lsys_client s)"
  shows "lsys_sent s = 0 \<and> lsys_answers s = [] \<and> card_matches (lsys_client s) (lsys_server s)"
proof -
  from assms have n: "lsys_sent s + length (lsys_answers s) \<le> 1"
    and l: "lsys_sent s + length (lsys_answers s) \<noteq> 1"
    and z: "lsys_sent s + length (lsys_answers s) = 0 \<longrightarrow> card_matches (lsys_client s) (lsys_server s)"
    by (simp_all add: card_like_inv_def Let_def)
  from n l have "lsys_sent s + length (lsys_answers s) = 0" by arith
  with z show ?thesis by simp
qed

lemma card_like_inv_sent:
  assumes "card_like_inv s" and "0 < lsys_sent s"
  shows "lsys_sent s = 1 \<and> lsys_answers s = [] \<and> card_matches (lsys_client s) (lsys_server s)
         \<and> card_loading (lsys_client s)"
proof -
  from assms have n: "lsys_sent s + length (lsys_answers s) \<le> 1"
    and m: "lsys_sent s = 1 \<longrightarrow> card_matches (lsys_client s) (lsys_server s)"
    and l: "card_loading (lsys_client s) \<longleftrightarrow> lsys_sent s + length (lsys_answers s) = 1"
    by (simp_all add: card_like_inv_def Let_def)
  from n assms(2) have "lsys_sent s = 1" and "length (lsys_answers s) = 0" by arith+
  with m l show ?thesis by simp
qed

lemma card_like_inv_step:
  assumes "card_like_inv s" and "card_like_sys_step pid s e = Some s'"
  shows "card_like_inv s'"
proof (cases e)
  case LClick
  with assms(2) have en: "\<not> card_loading (lsys_client s)"
    and s': "s' = s\<lparr>lsys_client := (lsys_client s)\<lparr>card_loading := True\<rparr>, lsys_sent := Suc (lsys_sent s)\<rparr>"
    by (auto simp: card_like_sys_step_def card_like_enabled_def card_like_click_def split: if_splits)
  from card_like_inv_idle [OF assms(1) en] s' show ?thesis
    by (simp add: card_like_inv_def card_matches_def)
next
  case LServe
  with assms(2) have p: "0 < lsys_sent s"
    and s': "s' = s\<lparr>lsys_server := server_toggle (lsys_server s), lsys_sent := lsys_sent s - 1,
                   lsys_answers := lsys_answers s @ [Inr (server_answer (server_toggle (lsys_server s)))]\<rparr>"
    by (auto simp: card_like_sys_step_def split: if_splits)
  from card_like_inv_sent [OF assms(1) p] s' show ?thesis
    by (simp add: card_like_inv_def)
next
  case LFail
  with assms(2) have p: "0 < lsys_sent s"
    and s': "s' = s\<lparr>lsys_sent := lsys_sent s - 1, lsys_answers := lsys_answers s @ [Inl NetworkError]\<rparr>"
    by (auto simp: card_like_sys_step_def split: if_splits)
  from card_like_inv_sent [OF assms(1) p] s' show ?thesis
    by (simp add: card_like_inv_def)
next
  case (LDeliver i)
  with assms(2) obtain r where r: "nth_opt (lsys_answers s) i = Some r"
    and s': "s' = s\<lparr>lsys_client := card_like_done (lsys_client s) r,
                   lsys_answers := remove_nth i (lsys_answers s)\<rparr>"
    by (auto simp: card_like_sys_step_def split: option.splits)
  from assms(1) have "length (lsys_answers s) \<le> 1" by (simp add: card_like_inv_def Let_def)
  with r have a: "lsys_answers s = [r]" and i: "i = 0" by (auto dest: nth_opt_single)
  with assms(1) s' show ?thesis
    by (cases r) (auto simp: card_like_inv_def card_matches_def server_answer_def Let_def)
qed


text \<open>
  C13. Likes on a post card are serialized and consistent: starting from a card that shows
  the server's like state with nothing in flight, in every reachable state at most one
  toggle is in flight, and whenever the button is enabled again the card shows exactly
  the server's liked flag and count (section 4.4; section 8, concurrent toggles).
\<close>

theorem card_like_consistent:
  assumes "like_reach card_like_enabled (\<lambda>c. fst (card_like_click True pid c)) card_like_done s0 s"
    and "lsys_sent s0 = 0" and "lsys_answers s0 = []" and "\<not> card_loading (lsys_client s0)"
    and "card_matches (lsys_client s0) (lsys_server s0)"
  shows "lsys_sent s + length (lsys_answers s) \<le> 1 \<and>
         (\<not> card_loading (lsys_client s) \<longrightarrow> card_matches (lsys_client s) (lsys_server s))"
proof -
  have inv: "card_like_inv s"
    using assms(1)
  proof (induction rule: like_reach.induct)
    case start
    with assms(2-5) show ?case by (simp add: card_like_inv_def)
  next
    case (step s e s')
    then show ?case using card_like_inv_step by (auto simp: card_like_sys_step_def)
  qed
  have "lsys_sent s + length (lsys_answers s) \<le> 1"
    using inv by (simp add: card_like_inv_def Let_def)
  moreover have "\<not> card_loading (lsys_client s) \<longrightarrow> card_matches (lsys_client s) (lsys_server s)"
    using card_like_inv_idle [OF inv] by blast
  ultimately show ?thesis by blast
qed


text \<open>
  C14. The post page's like button has no in-flight guard: two quick clicks whose answers
  arrive in reverse order leave the page showing a like state the server no longer has,
  with nothing left in flight.
\<close>

theorem detail_double_toggle_stale:
  "\<exists>s. like_run detail_shown (\<lambda>d. fst (detail_like_click True 5 d)) detail_like_done
         \<lparr>lsys_client = demo_detail, lsys_server = demo_like_server, lsys_sent = 0, lsys_answers = []\<rparr>
         [LClick, LClick, LServe, LServe, LDeliver 1, LDeliver 0] = Some s
     \<and> detail_matches demo_detail demo_like_server
     \<and> lsys_sent s = 0 \<and> lsys_answers s = []
     \<and> \<not> detail_matches (lsys_client s) (lsys_server s)"
  by (simp add: demo_detail_def detail_init_def demo_liked_post_def demo_like_server_def
      detail_shown_def detail_like_click_def server_toggle_def server_answer_def detail_matches_def
      nth_opt_def remove_nth_eq)


text \<open>
  C15. A card toggle whose request fails ends with the liked flag and the count exactly at
  their values before the click, the button enabled again and the server untouched
  (section 8).
\<close>

theorem card_like_failure_restores:
  assumes "card_like_sys_step pid s LClick = Some s1"
    and "card_like_sys_step pid s1 LFail = Some s2"
    and "card_like_sys_step pid s2 (LDeliver (length (lsys_answers s))) = Some s3"
  shows "card_is_liked (lsys_client s3) = card_is_liked (lsys_client s) \<and>
         card_likes_count (lsys_client s3) = card_likes_count (lsys_client s) \<and>
         \<not> card_loading (lsys_client s3) \<and> lsys_server s3 = lsys_server s"
  using assms
  by (auto simp: card_like_sys_step_def card_like_click_def nth_opt_def nth_append split: if_splits)


text \<open>
  Without a signed-in user, liking (on a card or the post page) and commenting send
  no request and change none of the shown likes, comments or draft; only an error toast
  is raised (section 4.4, auth-required).
\<close>

theorem signed_out_actions_send_nothing:
  "snd (card_like_click False pid c) = [] \<and>
   card_is_liked (fst (card_like_click False pid c)) = card_is_liked c \<and>
   card_likes_count (fst (card_like_click False pid c)) = card_likes_count c \<and>
   snd (detail_like_click False pid d) = [] \<and>
   snd (comment_submit False pid d) = None \<and>
   dt_comments (fst (comment_submit False pid d)) = dt_comments d \<and>
   dt_new_comment (fst (comment_submit False pid d)) = dt_new_comment d \<and>
   detail_matches (fst (detail_like_click False pid d)) v = detail_matches d v"
  by (simp add: card_like_click_def detail_like_click_def comment_submit_def detail_matches_def)


text \<open>
  C16. A comment is sent exactly when the draft is not all white space; the request then
  carries the draft as typed and the continuation keeps the comments shown at submit
  time.
\<close>

theorem comment_submit_validates:
  "(snd (comment_submit True pid d) = None \<longleftrightarrow> (\<forall>c\<in>set (dt_new_comment d). js_is_space c)) \<and>
   (js_trim (dt_new_comment d) \<noteq> [] \<longrightarrow>
      comment_submit True pid d =
        (d\<lparr>dt_comment_loading := True\<rparr>,
         Some (ApiPost (''/posts/'' @ js_num_str pid @ ''/comment/'') [(''content'', dt_new_comment d)],
               dt_comments d)))"
  by (auto simp: comment_submit_def comment_request_def js_trim_empty_iff)


lemma detail_inv_step:
  assumes "detail_inv s" and "detail_sys_step pid s e = Some s'"
  shows "detail_inv s'"
proof -
  obtain d f cs where s: "s = (d, f, cs)" by (cases s) auto
  show ?thesis
  proof (cases e)
    case (DFetchDone r)
    with assms s show ?thesis by (cases r) (auto split: if_splits)
  next
    case (DType t)
    with assms s show ?thesis by (auto simp: set_new_comment_def detail_shown_def split: if_splits)
  next
    case DSubmit
    with assms s show ?thesis
      by (auto simp: comment_submit_enabled_def comment_submit_def detail_shown_def split: if_splits)
  next
    case (DCommentDone i r)
    with assms(2) s obtain snap where n: "nth_opt cs i = Some snap"
      and s': "s' = (comment_done d snap r, f, remove_nth i cs)"
      by (auto split: option.splits)
    from assms(1) s have "length cs \<le> 1" by simp
    with n have "cs = [snap] \<and> i = 0" by (rule nth_opt_single)
    with assms(1) s s' show ?thesis by (cases r) auto
  qed
qed

lemma detail_reach_inv: "detail_reach pid s \<Longrightarrow> detail_inv s"
proof (induction rule: detail_reach.induct)
  case start
  show ?case by (simp add: detail_start_def detail_init_def)
next
  case (step s e s')
  then show ?case by (blast intro: detail_inv_step)
qed


lemma comment_done_reach:
  assumes "detail_reach pid s" and "detail_sys_step pid s (DCommentDone i (Inr c)) = Some s'"
  shows "fst s' = comment_done (fst s) (dt_comments (fst s)) (Inr c)"
proof -
  obtain d f cs where s: "s = (d, f, cs)" by (cases s) auto
  from assms(2) s obtain snap where n: "nth_opt cs i = Some snap"
    and s': "s' = (comment_done d snap (Inr c), f, remove_nth i cs)"
    by (auto split: option.splits)
  from detail_reach_inv [OF assms(1)] s n have "snap = dt_comments d"
    by (auto dest: nth_opt_in_set)
  with s s' show ?thesis by simp
qed

text \<open>After a posted comment the page counts one comment more, with the label to match.\<close>

lemma comment_count_shown:
  assumes "detail_reach pid s" and "detail_sys_step pid s (DCommentDone i (Inr c)) = Some s'"
  shows "snd (detail_counts (fst s')) =
           (js_num_str (Suc (length (dt_comments (fst s)))),
            count_label (Suc (length (dt_comments (fst s)))) ''Comment'' ''Comments'')"
  using comment_done_reach [OF assms] by (simp add: detail_counts_def)

text \<open>
  C17. On the post page, a posted comment's answer puts the new comment in front of the
  comments currently shown, none lost, clears the draft and re-enables the form.
\<close>

theorem comment_prepended:
  assumes "detail_reach pid s" and "detail_sys_step pid s (DCommentDone i (Inr c)) = Some s'"
  shows "dt_comments (fst s') = c # dt_comments (fst s) \<and> dt_new_comment (fst s') = []
       \<and> \<not> dt_comment_loading (fst s')"
  using comment_done_reach [OF assms] by simp


subsection \<open>Witnesses\<close>

lemmas action_unfold = demo_card_sys_def card_init_def demo_liked_post_def card_like_sys_step_def
  card_like_enabled_def card_like_click_def server_toggle_def server_answer_def card_matches_def
  nth_opt_def remove_nth_eq

theorem card_like_consistent_witness:
  "like_reach card_like_enabled (\<lambda>c. fst (card_like_click True 5 c)) card_like_done demo_card_sys
     (the (like_run card_like_enabled (\<lambda>c. fst (card_like_click True 5 c)) card_like_done
        demo_card_sys [LClick, LServe])) \<and>
   lsys_sent demo_card_sys = 0 \<and> lsys_answers demo_card_sys = [] \<and>
   \<not> card_loading (lsys_client demo_card_sys) \<and>
   card_matches (lsys_client demo_card_sys) (lsys_server demo_card_sys) \<and>
   lsys_sent (the (like_run card_like_enabled (\<lambda>c. fst (card_like_click True 5 c)) card_like_done
        demo_card_sys [LClick, LServe]))
   + length (lsys_answers (the (like_run card_like_enabled (\<lambda>c. fst (card_like_click True 5 c))
        card_like_done demo_card_sys [LClick, LServe]))) \<le> 1"
proof -
  let ?E = card_like_enabled and ?C = "\<lambda>c. fst (card_like_click True 5 c)" and ?D = card_like_done
  let ?S = "the (like_run ?E ?C ?D demo_card_sys [LClick, LServe])"
  have run: "like_run ?E ?C ?D demo_card_sys [LClick, LServe] = Some ?S"
    by (simp add: action_unfold)
  have r: "like_reach ?E ?C ?D demo_card_sys ?S"
    using like_reach.start run by (rule like_run_reach)
  have h2: "lsys_sent demo_card_sys = 0" by (simp add: demo_card_sys_def)
  have h3: "lsys_answers demo_card_sys = []" by (simp add: demo_card_sys_def)
  have h4: "\<not> card_loading (lsys_client demo_card_sys)" by (simp add: action_unfold)
  have h5: "card_matches (lsys_client demo_card_sys) (lsys_server demo_card_sys)"
    by (simp add: action_unfold)
  show ?thesis using r h2 h3 h4 h5 card_like_consistent [OF r h2 h3 h4 h5] by blast
qed

theorem card_like_failure_restores_witness:
  "card_like_sys_step 5 demo_card_sys LClick =
     Some (the (card_like_sys_step 5 demo_card_sys LClick)) \<and>
   card_like_sys_step 5 (the (card_like_sys_step 5 demo_card_sys LClick)) LFail =
     Some (the (card_like_sys_step 5 (the (card_like_sys_step 5 demo_card_sys LClick)) LFail)) \<and>
   card_like_sys_step 5 (the (card_like_sys_step 5 (the (card_like_sys_step 5 demo_card_sys LClick)) LFail))
     (LDeliver (length (lsys_answers demo_card_sys))) =
     Some (the (card_like_sys_step 5 (the (card_like_sys_step 5 (the (card_like_sys_step 5 demo_card_sys LClick)) LFail))
       (LDeliver 0))) \<and>
   card_likes_count (lsys_client (the (card_like_sys_step 5 (the (card_like_sys_step 5
       (the (card_like_sys_step 5 demo_card_sys LClick)) LFail)) (LDeliver 0)))) = 3"
proof -
  let ?s1 = "the (card_like_sys_step 5 demo_card_sys LClick)"
  let ?s2 = "the (card_like_sys_step 5 ?s1 LFail)"
  let ?s3 = "the (card_like_sys_step 5 ?s2 (LDeliver 0))"
  have h1: "card_like_sys_step 5 demo_card_sys LClick = Some ?s1" by (simp add: action_unfold)
  have h2: "card_like_sys_step 5 ?s1 LFail = Some ?s2" by (simp add: action_unfold)
  have h3: "card_like_sys_step 5 ?s2 (LDeliver (length (lsys_answers demo_card_sys))) = Some ?s3"
    by (simp add: action_unfold)
  have "card_likes_count (lsys_client ?s3) = card_likes_count (lsys_client demo_card_sys)"
    using card_like_failure_restores [OF h1 h2 h3] by blast
  then have "card_likes_count (lsys_client ?s3) = 3" by (simp add: action_unfold)
  with h1 h2 h3 show ?thesis by (simp add: demo_card_sys_def)
qed

theorem comment_submit_validates_witness:
  "js_trim (dt_new_comment (demo_detail\<lparr>dt_new_comment := '' hi''\<rparr>)) \<noteq> [] \<and>
   snd (comment_submit True 5 (demo_detail\<lparr>dt_new_comment := '' hi''\<rparr>)) =
     Some (ApiPost (''/posts/'' @ js_num_str 5 @ ''/comment/'') [(''content'', '' hi'')],
           dt_comments demo_detail)"
proof -
  have h: "js_trim (dt_new_comment (demo_detail\<lparr>dt_new_comment := '' hi''\<rparr>)) \<noteq> []"
    by (simp add: js_trim_def js_is_space_def)
  show ?thesis using h comment_submit_validates [of 5 "demo_detail\<lparr>dt_new_comment := '' hi''\<rparr>"]
    by simp
qed

theorem comment_prepended_witness:
  "detail_reach 5 (the (detail_run 5 detail_start
      [DFetchDone (Inr \<lparr>pd_post = demo_liked_post, pd_comments = []\<rparr>), DType ''hi'', DSubmit])) \<and>
   detail_sys_step 5 (the (detail_run 5 detail_start
      [DFetchDone (Inr \<lparr>pd_post = demo_liked_post, pd_comments = []\<rparr>), DType ''hi'', DSubmit]))
      (DCommentDone 0 (Inr demo_comment)) =
   Some (the (detail_run 5 detail_start
      [DFetchDone (Inr \<lparr>pd_post = demo_liked_post, pd_comments = []\<rparr>), DType ''hi'', DSubmit,
       DCommentDone 0 (Inr demo_comment)])) \<and>
   dt_comments (fst (the (detail_run 5 detail_start
      [DFetchDone (Inr \<lparr>pd_post = demo_liked_post, pd_comments = []\<rparr>), DType ''hi'', DSubmit,
       DCommentDone 0 (Inr demo_comment)]))) = [demo_comment]"
proof -
  let ?es = "[DFetchDone (Inr \<lparr>pd_post = demo_liked_post, pd_comments = []\<rparr>), DType ''hi'', DSubmit]"
  let ?S = "the (detail_run 5 detail_start ?es)"
  let ?S' = "the (detail_run 5 detail_start (?es @ [DCommentDone 0 (Inr demo_comment)]))"
  have run: "detail_run 5 detail_start ?es = Some ?S"
    by (simp add: detail_start_def detail_init_def detail_shown_def set_new_comment_def
        comment_submit_enabled_def comment_submit_def js_trim_def js_is_space_def)
  have r: "detail_reach 5 ?S" using detail_reach.start run by (rule detail_run_reach)
  have st: "detail_sys_step 5 ?S (DCommentDone 0 (Inr demo_comment)) = Some ?S'"
    by (simp add: detail_start_def detail_init_def detail_shown_def set_new_comment_def
        comment_submit_enabled_def comment_submit_def js_trim_def js_is_space_def)
  have "dt_comments (fst ?S') = demo_comment # dt_comments (fst ?S)"
    using comment_prepended [OF r st] by blast
  then have "dt_comments (fst ?S') = [demo_comment]"
    by (simp add: detail_start_def detail_init_def detail_shown_def set_new_comment_def
        comment_submit_enabled_def comment_submit_def js_trim_def js_is_space_def)
  with r st show ?thesis by simp
qed

end
