(* ===== verification/Routes.thy ===== *)
theory Routes
  imports Prelude
begin

text \<open>
  Routing and navigation: the route table of src/blog/src/App.jsx and the links of
  src/blog/src/components/Navbar.jsx. A location is matched the way React Router 6
  matches a route path: case-insensitively, ignoring trailing slashes, with \<open>:id\<close>
  standing for one non-empty path segment. Elements that are \<open><Navigate to=...>\<close>
  move to another location, which is rendered again; a bounded number of such moves
  (fuel) resolves a location to what is shown.
\<close>

subsection \<open>Matching locations\<close>

definition js_lower :: "string \<Rightarrow> string" where
  "js_lower s = map (\<lambda>c. let n = of_char c :: nat in if 65 \<le> n \<and> n \<le> 90 then char_of (n + 32) else c) s"

definition strip_slashes :: "string \<Rightarrow> string" where
  "strip_slashes p = rev (dropWhile (\<lambda>c. c = CHR ''/'') (rev p))"

text \<open>A static path without trailing slash: \<open>^path\/*$\<close>, case-insensitive.\<close>

definition match_static :: "string \<Rightarrow> string \<Rightarrow> bool" where
  "match_static pat p \<longleftrightarrow> js_lower (strip_slashes p) = pat"

text \<open>The path \<open>/\<close>: \<open>^\/\/*$\<close>.\<close>

definition match_root :: "string \<Rightarrow> bool" where
  "match_root p \<longleftrightarrow> p \<noteq> [] \<and> strip_slashes p = []"

text \<open>\<open>/posts/:id\<close>: \<open>^\/posts\/([^\/]+)\/*$\<close>, case-insensitive; the segment is the id.\<close>

definition match_post :: "string \<Rightarrow> string option" where
  "match_post p =
     (let q = strip_slashes p in
      if 7 < length q \<and> js_lower (take 7 q) = ''/posts/'' \<and> CHR ''/'' \<notin> set (drop 7 q)
      then Some (drop 7 q) else None)"

subsection \<open>The route table\<close>

datatype app_view =
    Spinner
  | HomeView
  | LoginView
  | RegisterView
  | ProfileView
  | CreatePostView
  | PostDetailView string
  | NavigateTo string
  | NoRoute

text \<open>\<open>App\<close>: a spinner alone while the session loads; otherwise the matching route.\<close>

definition app_render :: "bool \<Rightarrow> bool \<Rightarrow> string \<Rightarrow> app_view" where
  "app_render loading signed_in p =
     (if loading then Spinner
      else if match_root p then HomeView
      else if match_static ''/login'' p then (if signed_in then NavigateTo ''/'' else LoginView)
      else if match_static ''/register'' p then (if signed_in then NavigateTo ''/'' else RegisterView)
      else if match_static ''/profile'' p then (if signed_in then ProfileView else NavigateTo ''/login'')
      else if match_static ''/create-post'' p then (if signed_in then CreatePostView else NavigateTo ''/login'')
      else (case match_post p of Some i \<Rightarrow> PostDetailView i | None \<Rightarrow> NoRoute))"

text \<open>Follow \<open>Navigate\<close> elements, at most \<open>fuel\<close> renders.\<close>

fun app_resolve :: "nat \<Rightarrow> bool \<Rightarrow> bool \<Rightarrow> string \<Rightarrow> app_view option" where
  "app_resolve 0 loading signed_in p = None"
| "app_resolve (Suc n) loading signed_in p =
     (case app_render loading signed_in p of
        NavigateTo q \<Rightarrow> app_resolve n loading signed_in q
      | v \<Rightarrow> Some v)"

subsection \<open>The navigation bar\<close>

text \<open>\<open>navItems\<close>, and the session links: Login and Register without a user.\<close>

definition nav_items :: "bool \<Rightarrow> (string \<times> string) list" where
  "nav_items signed_in =
     [(''/'', ''Home'')] @
     (if signed_in then [(''/create-post'', ''Create Post''), (''/profile'', ''Profile'')] else [])"

definition nav_links :: "bool \<Rightarrow> string list" where
  "nav_links signed_in =
     map fst (nav_items signed_in) @ (if signed_in then [] else [''/login'', ''/register''])"

definition is_navigate :: "app_view \<Rightarrow> bool" where
  "is_navigate v \<longleftrightarrow> (case v of NavigateTo _ \<Rightarrow> True | _ \<Rightarrow> False)"

text \<open>The links of a post card (PostCard.jsx): the post, and the author's edit link.\<close>

definition post_link :: "nat \<Rightarrow> string" where
  "post_link pid = ''/posts/'' @ js_num_str pid"

definition edit_link :: "nat \<Rightarrow> string" where
  "edit_link pid = ''/posts/'' @ js_num_str pid @ ''/edit''"

text \<open>
  Reading a decimal id back from a path segment, the reference for the round trip of the
  post links (the service reads the id of \<open>/posts/{id}/\<close> this way).
\<close>

definition dec_digit :: "char \<Rightarrow> bool" where
  "dec_digit c \<longleftrightarrow> (let n = of_char c :: nat in 48 \<le> n \<and> n \<le> 57)"

definition dec_parse :: "string \<Rightarrow> nat option" where
  "dec_parse s =
     (if s \<noteq> [] \<and> list_all dec_digit s
      then Some (foldl (\<lambda>a c. 10 * a + (of_char c - 48)) 0 s) else None)"

subsection \<open>Lemmas\<close>


lemmas route_unfold = app_render_def match_root_def match_static_def match_post_def
  strip_slashes_def js_lower_def

lemma js_num_str_digits: "\<forall>c\<in>set (js_num_str n). dec_digit c"
proof (induction n rule: js_num_str.induct)
  case (1 n)
  have d: "dec_digit (char_of (48 + k)) " if "k < 10" for k :: nat
    using that by (simp add: dec_digit_def of_char_of)
  show ?case
  proof (cases "n < 10")
    case True
    then show ?thesis using d by (subst js_num_str.simps) simp
  next
    case False
    with 1 show ?thesis using d [of "n mod 10"] by (subst js_num_str.simps) simp
  qed
qed

lemma dec_value_js_num_str:
  "foldl (\<lambda>a c. 10 * a + (of_char c - 48)) 0 (js_num_str n) = n"
proof (induction n rule: js_num_str.induct)
  case (1 n)
  have v: "of_char (char_of (48 + k) :: char) - 48 = k" if "k < 10" for k :: nat
    using that by (simp add: of_char_of)
  show ?case
  proof (cases "n < 10")
    case True
    then show ?thesis using v [of n] by (subst js_num_str.simps) simp
  next
    case False
    with 1 have "foldl (\<lambda>a c. 10 * a + (of_char c - 48)) 0 (js_num_str (n div 10)) = n div 10" by simp
    with False show ?thesis using v [of "n mod 10"] by (subst js_num_str.simps) simp
  qed
qed

lemma dec_parse_js_num_str: "dec_parse (js_num_str n) = Some n"
  using js_num_str_digits [of n] js_num_str_nonempty [of n] dec_value_js_num_str [of n]
  by (simp add: dec_parse_def list_all_iff)

lemma js_num_str_no_slash: "CHR ''/'' \<notin> set (js_num_str n)"
  using js_num_str_digits [of n] by (auto simp: dec_digit_def)

lemma strip_slashes_free: "s \<noteq> [] \<Longrightarrow> last s \<noteq> CHR ''/'' \<Longrightarrow> strip_slashes s = s"
  by (cases s rule: rev_cases) (simp_all add: strip_slashes_def)

lemma app_resolve_rendered:
  "app_resolve n l s p = Some v \<Longrightarrow> \<exists>q. app_render l s q = v"
proof (induction n arbitrary: p)
  case 0
  then show ?case by simp
next
  case (Suc n)
  then show ?case by (auto split: app_view.splits)
qed

lemma app_render_guards:
  "app_render l False p \<noteq> ProfileView \<and> app_render l False p \<noteq> CreatePostView \<and>
   app_render l True p \<noteq> LoginView \<and> app_render l True p \<noteq> RegisterView"
  by (simp add: app_render_def split: option.splits)


text \<open>
  C19. Route guards: whatever the location and however many redirects are followed, a
  signed-out user is never shown the profile or post-composer page, a signed-in user is
  never shown the login or register page, and while the session loads only the spinner
  is shown.
\<close>

theorem route_guards:
  "app_resolve n False False p \<noteq> Some ProfileView \<and> app_resolve n False False p \<noteq> Some CreatePostView \<and>
   app_resolve n False True p \<noteq> Some LoginView \<and> app_resolve n False True p \<noteq> Some RegisterView \<and>
   app_resolve (Suc n) True s p = Some Spinner"
  using app_resolve_rendered app_render_guards by (auto simp: app_render_def) blast+

lemma app_render_navigate:
  "app_render l s p = NavigateTo q \<Longrightarrow> \<not> l \<and> ((q = ''/'' \<and> s) \<or> (q = ''/login'' \<and> \<not> s))"
  by (auto simp: app_render_def split: if_splits option.splits)


text \<open>
  Redirects settle: every location, in every session state, is resolved to a page
  that is not a redirect within two renders (no redirect loop).
\<close>

theorem redirects_settle:
  "\<exists>v. app_resolve 2 l s p = Some v \<and> \<not> is_navigate v"
proof (cases "app_render l s p")
  case (NavigateTo q)
  then have q: "\<not> l \<and> ((q = ''/'' \<and> s) \<or> (q = ''/login'' \<and> \<not> s))" by (rule app_render_navigate)
  then have "\<not> is_navigate (app_render l s q)"
    by (auto simp: route_unfold is_navigate_def)
  with NavigateTo show ?thesis
    by (auto simp: numeral_2_eq_2 is_navigate_def split: app_view.splits)
qed (auto simp: numeral_2_eq_2 is_navigate_def)


text \<open>
  The navigation bar and the route table agree: every link the bar offers to a user
  leads, without any redirect, to a page that exists for that user.
\<close>

theorem nav_links_not_bounced:
  "\<forall>to\<in>set (nav_links s). \<exists>v. app_resolve 1 False s to = Some v \<and> \<not> is_navigate v \<and> v \<noteq> NoRoute"
  by (cases s) (simp_all add: nav_links_def nav_items_def route_unfold is_navigate_def)

text \<open>Locations match case-insensitively and with trailing slashes.\<close>

lemma route_matching_examples:
  "app_render False True ''/Posts/42/'' = PostDetailView ''42'' \<and>
   app_render False False ''/PROFILE//'' = NavigateTo ''/login'' \<and>
   app_render False True ''/posts/'' = NoRoute"
  by code_simp


lemma app_render_post_link: "app_render False s (post_link n) = PostDetailView (js_num_str n)"
proof -
  have ne: "js_num_str n \<noteq> []" by (rule js_num_str_nonempty)
  have nl: "last (post_link n) \<noteq> CHR ''/''"
    using js_num_str_no_slash [of n] last_in_set [OF ne] by (auto simp: post_link_def)
  have st: "strip_slashes (post_link n) = post_link n"
    by (rule strip_slashes_free) (simp add: post_link_def, rule nl)
  have "js_lower (post_link n) \<noteq> p" if "p \<in> {''/login'', ''/register'', ''/profile'', ''/create-post''}" for p
    using that by (auto simp: post_link_def js_lower_def)
  then have "\<not> match_static p (post_link n)" if "p \<in> {''/login'', ''/register'', ''/profile'', ''/create-post''}" for p
    using that st by (simp add: match_static_def)
  moreover have "\<not> match_root (post_link n)" using st by (simp add: match_root_def post_link_def)
  moreover have "match_post (post_link n) = Some (js_num_str n)"
    using st ne js_num_str_no_slash [of n] by (simp add: match_post_def post_link_def js_lower_def)
  ultimately show ?thesis by (simp add: app_render_def)
qed

text \<open>
  C29. A card's link to its post reaches the post page with the post's id: the route
  table renders \<open>/posts/:id\<close> for \<open>`/posts/${post.id}`\<close>, and the segment it
  passes as \<open>id\<close> reads back as exactly that id, so distinct posts have distinct pages.
\<close>

theorem post_link_roundtrip:
  "app_render False s (post_link n) = PostDetailView (js_num_str n) \<and> dec_parse (js_num_str n) = Some n"
  by (simp add: app_render_post_link dec_parse_js_num_str)


text \<open>
  The edit link a card shows to the post's author leads nowhere: no route of App
  matches \<open>`/posts/${post.id}/edit`\<close>, so the page below the navigation bar is empty.
\<close>

theorem edit_link_unrouted: "app_render False s (edit_link n) = NoRoute"
proof -
  have nl: "last (edit_link n) \<noteq> CHR ''/''" by (simp add: edit_link_def)
  have st: "strip_slashes (edit_link n) = edit_link n"
    by (rule strip_slashes_free) (simp_all add: edit_link_def nl)
  have "js_lower (edit_link n) \<noteq> p" if "p \<in> {''/login'', ''/register'', ''/profile'', ''/create-post''}" for p
    using that by (auto simp: edit_link_def js_lower_def)
  then have "\<not> match_static p (edit_link n)" if "p \<in> {''/login'', ''/register'', ''/profile'', ''/create-post''}" for p
    using that st by (simp add: match_static_def)
  moreover have "\<not> match_root (edit_link n)" using st by (simp add: match_root_def edit_link_def)
  moreover have "match_post (edit_link n) = None"
    using st by (simp add: match_post_def edit_link_def)
  ultimately show ?thesis by (simp add: app_render_def)
qed

subsection \<open>Witnesses\<close>

theorem nav_links_not_bounced_witness:
  "''/login'' \<in> set (nav_links False) \<and>
   app_resolve 1 False False ''/login'' = Some LoginView \<and> \<not> is_navigate LoginView"
proof -
  have h: "''/login'' \<in> set (nav_links False)" by (simp add: nav_links_def nav_items_def)
  obtain v where "app_resolve 1 False False ''/login'' = Some v" and "\<not> is_navigate v"
    using nav_links_not_bounced [of False] h by blast
  moreover have "app_resolve 1 False False ''/login'' = Some LoginView"
    by (simp add: route_unfold)
  ultimately show ?thesis using h by simp
qed

end
