(* ===== verification/Feed.thy ===== *)
theory Feed
  imports Api
begin

text \<open>
  The feed controller: the \<open>Home\<close> page of src/blog/src/pages/Home.jsx, with the
  delete button of src/blog/src/components/PostCard.jsx whose answer calls back into it
  (\<open>onPostDelete\<close>). The state is Home's React state; the requests in flight are a list,
  and an answer may arrive for any of them, in any order. Each request carries what its
  continuation closed over when it was sent: the query of a fetch, the cursor URL of a
  load-more, and for a delete the post id and the \<open>posts\<close> array of the render in which
  the button was clicked (\<open>handlePostDelete\<close> filters that array, not the current one).
\<close>

subsection \<open>State\<close>

record pagination =
  pg_next :: "url option"
  pg_previous :: "url option"
  pg_count :: nat

record home_state =
  home_posts :: "post list"
  home_loading :: bool
  home_search :: string
  home_filters :: "(string \<times> string) list"
  home_pagination :: pagination
  home_toasts :: "toast list"

datatype home_req =
    FetchReq "(string \<times> string) list"
  | MoreReq url
  | DeleteReq post_id "post list"

type_synonym home_sys = "home_state \<times> home_req list"

definition home_init :: home_state where
  "home_init =
     \<lparr>home_posts = [], home_loading = True, home_search = [], home_filters = [],
      home_pagination = \<lparr>pg_next = None, pg_previous = None, pg_count = 0\<rparr>,
      home_toasts = []\<rparr>"

definition page_pagination :: "page \<Rightarrow> pagination" where
  "page_pagination pg = \<lparr>pg_next = page_next pg, pg_previous = page_previous pg, pg_count = page_count pg\<rparr>"

subsection \<open>Handlers\<close>

text \<open>
  The query object of \<open>fetchPosts\<close>:
  \<open>{...params, ...(searchQuery && {search: searchQuery}), ...filters}\<close>.
\<close>

definition fetch_query :: "home_state \<Rightarrow> (string \<times> string) list \<Rightarrow> (string \<times> string) list" where
  "fetch_query st params =
     obj_spread
       (obj_spread params (if home_search st = [] then [] else [(''search'', home_search st)]))
       (home_filters st)"

text \<open>\<open>fetchPosts\<close> up to its \<open>await\<close>: \<open>setLoading(true)\<close>, then the request.\<close>

definition fetch_posts :: "(string \<times> string) list \<Rightarrow> home_sys \<Rightarrow> home_sys" where
  "fetch_posts params s =
     (let (st, rs) = s in (st\<lparr>home_loading := True\<rparr>, rs @ [FetchReq (fetch_query st params)]))"

text \<open>\<open>fetchPosts\<close> after its \<open>await\<close>: the \<open>try\<close>, the \<open>catch\<close> and the \<open>finally\<close>.\<close>

fun fetch_posts_done :: "home_state \<Rightarrow> page api_result \<Rightarrow> home_state" where
  "fetch_posts_done st (Inr pg) =
     st\<lparr>home_posts := page_results pg, home_pagination := page_pagination pg,
        home_loading := False\<rparr>"
| "fetch_posts_done st (Inl e) =
     st\<lparr>home_toasts := home_toasts st @ [ToastError ''Failed to fetch posts''],
        home_loading := False\<rparr>"

text \<open>The mount: first render, then the effect on \<open>[searchQuery, filters]\<close>.\<close>

definition home_start :: home_sys where
  "home_start = fetch_posts [] (home_init, [])"

text \<open>
  \<open>handleSearch\<close>: \<open>setSearchQuery(query)\<close>. React skips the update (no render, no
  effect) when the string is the current one; otherwise the effect fetches.
\<close>

definition handle_search :: "string \<Rightarrow> home_sys \<Rightarrow> home_sys" where
  "handle_search q s =
     (let (st, rs) = s in
      if q = home_search st then s else fetch_posts [] (st\<lparr>home_search := q\<rparr>, rs))"

text \<open>
  \<open>handleFilter\<close>: \<open>setFilters(newFilters)\<close>. SearchBar passes a new object on every
  change, which is never the current one, so the effect always fetches.
\<close>

definition handle_filter :: "(string \<times> string) list \<Rightarrow> home_sys \<Rightarrow> home_sys" where
  "handle_filter f s = (let (st, rs) = s in fetch_posts [] (st\<lparr>home_filters := f\<rparr>, rs))"

text \<open>\<open>handlePostDelete\<close> on the \<open>posts\<close> it closed over.\<close>

definition handle_post_delete :: "post list \<Rightarrow> post_id \<Rightarrow> post list" where
  "handle_post_delete posts pid = filter (\<lambda>p. post_id p \<noteq> pid) posts"

text \<open>\<open>loadMore\<close> up to its \<open>await\<close>: \<open>if (!pagination.next) return\<close>.\<close>

definition load_more :: "home_sys \<Rightarrow> home_sys" where
  "load_more s =
     (let (st, rs) = s in
      if \<not> js_truthy_str (pg_next (home_pagination st)) then s
      else (st, rs @ [MoreReq (the (pg_next (home_pagination st)))]))"

text \<open>\<open>loadMore\<close> after its \<open>await\<close>: \<open>setPosts(prev => [...prev, ...results])\<close>.\<close>

fun load_more_done :: "home_state \<Rightarrow> page api_result \<Rightarrow> home_state" where
  "load_more_done st (Inr pg) =
     st\<lparr>home_posts := home_posts st @ page_results pg, home_pagination := page_pagination pg\<rparr>"
| "load_more_done st (Inl e) =
     st\<lparr>home_toasts := home_toasts st @ [ToastError ''Failed to load more posts'']\<rparr>"

text \<open>
  PostCard's \<open>handleDelete\<close> up to its \<open>await\<close>: nothing happens unless the user
  confirms; the request closes over the post id and Home's current \<open>posts\<close>.
\<close>

definition card_delete_click :: "bool \<Rightarrow> post_id \<Rightarrow> home_sys \<Rightarrow> home_sys" where
  "card_delete_click confirmed pid s =
     (let (st, rs) = s in if \<not> confirmed then s else (st, rs @ [DeleteReq pid (home_posts st)]))"

fun card_delete_done :: "home_state \<Rightarrow> post_id \<Rightarrow> post list \<Rightarrow> unit api_result \<Rightarrow> home_state" where
  "card_delete_done st pid snapshot (Inr _) =
     st\<lparr>home_toasts := home_toasts st @ [ToastSuccess ''Post deleted successfully''],
        home_posts := handle_post_delete snapshot pid\<rparr>"
| "card_delete_done st pid snapshot (Inl e) =
     st\<lparr>home_toasts := home_toasts st @ [ToastError ''Failed to delete post'']\<rparr>"

subsection \<open>The feed machine\<close>

text \<open>
  What the page renders decides which clicks exist: the load-more button is shown when
  there are posts and \<open>pagination.next\<close> is truthy; a card's delete button is shown
  to the post's author (\<open>canEdit\<close>) for a post in the list.
\<close>

definition load_more_shown :: "home_state \<Rightarrow> bool" where
  "load_more_shown st \<longleftrightarrow> home_posts st \<noteq> [] \<and> js_truthy_str (pg_next (home_pagination st))"

definition delete_shown :: "user_id option \<Rightarrow> post_id \<Rightarrow> home_state \<Rightarrow> bool" where
  "delete_shown viewer pid st \<longleftrightarrow>
     list_ex (\<lambda>p. post_id p = pid \<and> viewer = Some (post_author p)) (home_posts st)"

datatype home_event =
    HSearch string
  | HFilter "(string \<times> string) list"
  | HLoadMore
  | HDeleteClick "user_id option" bool post_id
  | HFetchDone nat "page api_result"
  | HMoreDone nat "page api_result"
  | HDeleteDone nat "unit api_result"

fun home_sys_step :: "home_sys \<Rightarrow> home_event \<Rightarrow> home_sys option" where
  "home_sys_step s (HSearch q) = Some (handle_search q s)"
| "home_sys_step s (HFilter f) = Some (handle_filter f s)"
| "home_sys_step s HLoadMore = (if load_more_shown (fst s) then Some (load_more s) else None)"
| "home_sys_step s (HDeleteClick viewer ok pid) =
     (if delete_shown viewer pid (fst s) then Some (card_delete_click ok pid s) else None)"
| "home_sys_step (st, rs) (HFetchDone i r) =
     (case nth_opt rs i of
        Some (FetchReq q) \<Rightarrow> Some (fetch_posts_done st r, remove_nth i rs)
      | _ \<Rightarrow> None)"
| "home_sys_step (st, rs) (HMoreDone i r) =
     (case nth_opt rs i of
        Some (MoreReq u) \<Rightarrow> Some (load_more_done st r, remove_nth i rs)
      | _ \<Rightarrow> None)"
| "home_sys_step (st, rs) (HDeleteDone i r) =
     (case nth_opt rs i of
        Some (DeleteReq pid snapshot) \<Rightarrow> Some (card_delete_done st pid snapshot r, remove_nth i rs)
      | _ \<Rightarrow> None)"

inductive home_reach :: "home_sys \<Rightarrow> bool" where
  start: "home_reach home_start"
| step: "home_reach s \<Longrightarrow> home_sys_step s e = Some s' \<Longrightarrow> home_reach s'"

fun home_run :: "home_sys \<Rightarrow> home_event list \<Rightarrow> home_sys option" where
  "home_run s [] = Some s"
| "home_run s (e # es) = (case home_sys_step s e of None \<Rightarrow> None | Some s' \<Rightarrow> home_run s' es)"


definition demo_post :: "post_id \<Rightarrow> user_id \<Rightarrow> post" where
  "demo_post i a = \<lparr>post_id = i, post_author = a, post_author_username = [],
     post_author_picture = None, post_title = [], post_caption = [], post_image = None,
     post_likes_count = 0, post_is_liked = False, post_comments_count = 0\<rparr>"

definition demo_page :: "post list \<Rightarrow> url option \<Rightarrow> page" where
  "demo_page ps n = \<lparr>page_results = ps, page_next = n, page_previous = None, page_count = length ps\<rparr>"

text \<open>A fetch is among the requests in flight.\<close>

definition fetch_pending :: "home_req list \<Rightarrow> bool" where
  "fetch_pending rs \<longleftrightarrow> list_ex (\<lambda>r. case r of FetchReq _ \<Rightarrow> True | _ \<Rightarrow> False) rs"


text \<open>
  The request each entry in flight was sent as: \<open>api.get(`/posts/?${queryParams}`)\<close>,
  \<open>api.get(pagination.next)\<close>, PostCard's \<open>api.delete(`/posts/${post.id}/`)\<close>.
\<close>

fun home_request :: "home_req \<Rightarrow> api_request" where
  "home_request (FetchReq q) = ApiGet (fetch_url q) []"
| "home_request (MoreReq u) = ApiGet u []"
| "home_request (DeleteReq pid snapshot) = ApiDelete (''/posts/'' @ js_num_str pid @ ''/'')"

subsection \<open>Lemmas\<close>

lemmas feed_unfold = home_start_def fetch_posts_def home_init_def handle_search_def
  handle_filter_def load_more_def card_delete_click_def load_more_shown_def delete_shown_def
  fetch_query_def page_pagination_def handle_post_delete_def demo_post_def demo_page_def
  nth_opt_def remove_nth_eq

lemma home_run_reach: "home_reach s \<Longrightarrow> home_run s es = Some s' \<Longrightarrow> home_reach s'"
proof (induction es arbitrary: s)
  case Nil
  then show ?case by simp
next
  case (Cons e es)
  then show ?case by (auto intro: home_reach.step split: option.splits)
qed

lemma home_step_FetchDone:
  "home_sys_step s (HFetchDone i r) = Some s' \<Longrightarrow>
     \<exists>q. nth_opt (snd s) i = Some (FetchReq q) \<and> s' = (fetch_posts_done (fst s) r, remove_nth i (snd s))"
  by (cases s) (auto split: option.splits home_req.splits)

lemma home_step_MoreDone:
  "home_sys_step s (HMoreDone i r) = Some s' \<Longrightarrow>
     \<exists>u. nth_opt (snd s) i = Some (MoreReq u) \<and> s' = (load_more_done (fst s) r, remove_nth i (snd s))"
  by (cases s) (auto split: option.splits home_req.splits)

lemma home_step_DeleteDone:
  "home_sys_step s (HDeleteDone i r) = Some s' \<Longrightarrow>
     \<exists>pid snap. nth_opt (snd s) i = Some (DeleteReq pid snap) \<and>
        s' = (card_delete_done (fst s) pid snap r, remove_nth i (snd s))"
  by (cases s) (auto split: option.splits home_req.splits)


text \<open>
  C1. The answer to a feed fetch is applied atomically: on success the posts and the cursor
  are both replaced by the page's; on failure both are kept as they were; either way the
  loading flag is cleared (section 4.3, fetchFirstPage; section 7).
\<close>

theorem fetch_done_atomic:
  assumes "home_sys_step s (HFetchDone i r) = Some s'"
  shows "(case r of
            Inr pg \<Rightarrow> home_posts (fst s') = page_results pg \<and> home_pagination (fst s') = page_pagination pg
          | Inl e \<Rightarrow> home_posts (fst s') = home_posts (fst s) \<and> home_pagination (fst s') = home_pagination (fst s))
         \<and> \<not> home_loading (fst s')"
  using home_step_FetchDone [OF assms] by (cases r) auto


text \<open>
  C2. A fetch answer is applied whatever query is current: when the answer to an older
  search arrives after the answer to a newer one, the feed shows the older search's posts
  under the newer search text. Home.jsx keeps no generation counter (section 4.3 asks
  for one).
\<close>

theorem stale_fetch_applied:
  "\<exists>s. home_run home_start
        [HSearch ''a'', HSearch ''ab'',
         HFetchDone 2 (Inr (demo_page [demo_post 2 7] None)),
         HFetchDone 1 (Inr (demo_page [demo_post 1 7] None))] = Some s
     \<and> home_reach s \<and> home_search (fst s) = ''ab'' \<and> home_posts (fst s) = [demo_post 1 7]"
proof -
  obtain s where run: "home_run home_start
        [HSearch ''a'', HSearch ''ab'',
         HFetchDone 2 (Inr (demo_page [demo_post 2 7] None)),
         HFetchDone 1 (Inr (demo_page [demo_post 1 7] None))] = Some s"
    and st: "home_search (fst s) = ''ab'' \<and> home_posts (fst s) = [demo_post 1 7]"
    by (simp add: feed_unfold)
  have "home_reach s" using home_reach.start run by (rule home_run_reach)
  with run st show ?thesis by blast
qed


text \<open>
  C4. A load-more appends its page without skipping ids already in the feed: an overlapping
  page puts the same post id in the feed twice (section 3 requires the feed never to hold
  two entries with one id).
\<close>

theorem load_more_duplicates:
  "\<exists>s. home_run home_start
        [HFetchDone 0 (Inr (demo_page [demo_post 1 7] (Some ''/posts/?page=2''))),
         HLoadMore,
         HMoreDone 0 (Inr (demo_page [demo_post 1 7, demo_post 2 7] None))] = Some s
     \<and> home_reach s \<and> \<not> distinct (map post_id (home_posts (fst s)))"
proof -
  obtain s where run: "home_run home_start
        [HFetchDone 0 (Inr (demo_page [demo_post 1 7] (Some ''/posts/?page=2''))),
         HLoadMore,
         HMoreDone 0 (Inr (demo_page [demo_post 1 7, demo_post 2 7] None))] = Some s"
    and st: "\<not> distinct (map post_id (home_posts (fst s)))"
    by (simp add: feed_unfold)
  have "home_reach s" using home_reach.start run by (rule home_run_reach)
  with run st show ?thesis by blast
qed


text \<open>
  C6. Because the delete's continuation filters the posts captured at click time, a page
  loaded while the delete was in flight disappears from the feed when the delete
  succeeds.
\<close>

theorem delete_loses_loaded_page:
  "\<exists>s. home_run home_start
        [HFetchDone 0 (Inr (demo_page [demo_post 1 7, demo_post 2 8] (Some ''/posts/?page=2''))),
         HDeleteClick (Some 7) True 1,
         HLoadMore,
         HMoreDone 1 (Inr (demo_page [demo_post 3 8] None)),
         HDeleteDone 0 (Inr ())] = Some s
     \<and> home_reach s \<and> home_posts (fst s) = [demo_post 2 8]"
proof -
  obtain s where run: "home_run home_start
        [HFetchDone 0 (Inr (demo_page [demo_post 1 7, demo_post 2 8] (Some ''/posts/?page=2''))),
         HDeleteClick (Some 7) True 1,
         HLoadMore,
         HMoreDone 1 (Inr (demo_page [demo_post 3 8] None)),
         HDeleteDone 0 (Inr ())] = Some s"
    and st: "home_posts (fst s) = [demo_post 2 8]"
    by (simp add: feed_unfold)
  have "home_reach s" using home_reach.start run by (rule home_run_reach)
  with run st show ?thesis by blast
qed



text \<open>
  C3. The answer to a load-more appends the page's posts after the current ones, in arrival
  order, and replaces the cursor; a failed load-more keeps posts and cursor; neither
  touches the loading flag.
\<close>

theorem load_more_done_appends:
  assumes "home_sys_step s (HMoreDone i r) = Some s'"
  shows "(case r of
            Inr pg \<Rightarrow> home_posts (fst s') = home_posts (fst s) @ page_results pg
                    \<and> home_pagination (fst s') = page_pagination pg
          | Inl e \<Rightarrow> home_posts (fst s') = home_posts (fst s)
                    \<and> home_pagination (fst s') = home_pagination (fst s))
         \<and> home_loading (fst s') = home_loading (fst s)"
  using home_step_MoreDone [OF assms] by (cases r) auto


text \<open>
  Clicking load-more changes no state: it sends exactly one request, for the opaque
  next URL the server supplied, which exists whenever the button is shown.
\<close>

theorem load_more_sends_cursor:
  assumes "home_sys_step s HLoadMore = Some s'"
  shows "fst s' = fst s \<and> pg_next (home_pagination (fst s)) \<noteq> None \<and>
         snd s' = snd s @ [MoreReq (the (pg_next (home_pagination (fst s))))]"
proof -
  obtain st rs where s: "s = (st, rs)" by fastforce
  from assms s have shown: "load_more_shown st" and s': "s' = load_more (st, rs)"
    by (auto split: if_splits)
  from shown have "js_truthy_str (pg_next (home_pagination st))"
    by (simp add: load_more_shown_def)
  then have "pg_next (home_pagination st) \<noteq> None"
    by (cases "pg_next (home_pagination st)") auto
  with shown s s' show ?thesis
    by (auto simp: load_more_def load_more_shown_def)
qed


text \<open>
  C5. The answer to a delete sets the feed, on success, to the list captured when the
  delete button was clicked with that post's entries filtered out; on failure the feed
  is unchanged. The cursor is never touched.
\<close>

theorem delete_done_effect:
  assumes "home_sys_step s (HDeleteDone i r) = Some s'"
    and "nth_opt (snd s) i = Some (DeleteReq pid snap)"
  shows "home_posts (fst s') =
           (case r of Inr _ \<Rightarrow> filter (\<lambda>p. post_id p \<noteq> pid) snap | Inl _ \<Rightarrow> home_posts (fst s))
       \<and> home_pagination (fst s') = home_pagination (fst s)"
  using home_step_DeleteDone [OF assms(1)] assms(2)
  by (cases r) (auto simp: handle_post_delete_def)

lemma filter_distinct_key_remove_nth:
  "distinct (map f xs) \<Longrightarrow> k < length xs \<Longrightarrow>
     filter (\<lambda>p. f p \<noteq> f (xs ! k)) xs = remove_nth k xs"
proof (induction k xs rule: remove_nth.induct)
  case (1 uu)
  then show ?case by simp
next
  case (2 x xs)
  then have "f x \<notin> f ` set xs" by simp
  then have "\<forall>p\<in>set xs. f p \<noteq> f x" by (metis imageI)
  then show ?case by (simp add: filter_id_conv)
next
  case (3 i x xs)
  then have "f x \<noteq> f (xs ! i)" by (auto simp: nth_mem)
  with 3 show ?case by simp
qed


text \<open>
  C7. On a list with distinct ids, removing the post with a given id removes exactly the
  entry at its index and keeps every other entry in its order.
\<close>

theorem handle_post_delete_removes_one:
  assumes "distinct (map post_id xs)" and "k < length xs"
  shows "handle_post_delete xs (post_id (xs ! k)) = remove_nth k xs"
  using filter_distinct_key_remove_nth [OF assms] by (simp add: handle_post_delete_def)

lemma fetch_pending_remove_other:
  assumes "nth_opt rs i = Some r" and "\<forall>q. r \<noteq> FetchReq q" and "fetch_pending rs"
  shows "fetch_pending (remove_nth i rs)"
proof -
  from assms(3) obtain x where x: "x \<in> set rs" and k: "case x of FetchReq _ \<Rightarrow> True | _ \<Rightarrow> False"
    by (auto simp: fetch_pending_def list_ex_iff)
  from k obtain q where "x = FetchReq q" by (cases x) auto
  with x have q: "FetchReq q \<in> set rs" by simp
  have "FetchReq q \<noteq> r" using assms(2) by auto
  with assms(1) q have "FetchReq q \<in> set (remove_nth i rs)" by (rule set_remove_nth_keep)
  then show ?thesis by (force simp: fetch_pending_def list_ex_iff)
qed

lemma home_loading_step:
  assumes "home_loading (fst s) \<longrightarrow> fetch_pending (snd s)"
    and "home_sys_step s e = Some s'"
  shows "home_loading (fst s') \<longrightarrow> fetch_pending (snd s')"
proof (cases e)
  case (HFetchDone i r)
  with assms(2) show ?thesis by (cases r) (auto dest!: home_step_FetchDone)
next
  case (HMoreDone i r)
  then obtain u where n: "nth_opt (snd s) i = Some (MoreReq u)"
    and s': "s' = (load_more_done (fst s) r, remove_nth i (snd s))"
    using home_step_MoreDone assms(2) by blast
  have "home_loading (fst s') = home_loading (fst s)" by (cases r) (simp_all add: s')
  moreover have "fetch_pending (snd s) \<Longrightarrow> fetch_pending (snd s')"
    using fetch_pending_remove_other [OF n] s' by simp
  ultimately show ?thesis using assms(1) by blast
next
  case (HDeleteDone i r)
  then obtain pid snap where n: "nth_opt (snd s) i = Some (DeleteReq pid snap)"
    and s': "s' = (card_delete_done (fst s) pid snap r, remove_nth i (snd s))"
    using home_step_DeleteDone assms(2) by blast
  have "home_loading (fst s') = home_loading (fst s)" by (cases r) (simp_all add: s')
  moreover have "fetch_pending (snd s) \<Longrightarrow> fetch_pending (snd s')"
    using fetch_pending_remove_other [OF n] s' by simp
  ultimately show ?thesis using assms(1) by blast
qed (use assms in \<open>auto simp: feed_unfold fetch_pending_def split: if_splits prod.splits\<close>)


text \<open>
  C8. In every reachable state, while the loading flag is set, a feed fetch is in
  flight: the spinner never stays up without a request that will clear it.
\<close>

theorem home_loading_has_fetch:
  "home_reach s \<Longrightarrow> home_loading (fst s) \<Longrightarrow> fetch_pending (snd s)"
proof (induction rule: home_reach.induct)
  case start
  show ?case by (simp add: feed_unfold fetch_pending_def)
next
  case (step s e s')
  then show ?case using home_loading_step by blast
qed


text \<open>
  The converse fails: the answer to an older fetch clears the loading flag while the
  fetch for the current search is still in flight.
\<close>

theorem loading_cleared_while_fetching:
  "\<exists>s. home_run home_start [HSearch ''a'', HFetchDone 0 (Inr (demo_page [] None))] = Some s
     \<and> home_reach s \<and> \<not> home_loading (fst s) \<and> snd s = [FetchReq [(''search'', ''a'')]]"
proof -
  obtain s where run: "home_run home_start [HSearch ''a'', HFetchDone 0 (Inr (demo_page [] None))] = Some s"
    and st: "\<not> home_loading (fst s) \<and> snd s = [FetchReq [(''search'', ''a'')]]"
    by (simp add: feed_unfold)
  have "home_reach s" using home_reach.start run by (rule home_run_reach)
  with run st show ?thesis by blast
qed


text \<open>
  C9. The query sent by a fetch has distinct keys; it carries the search text under
  \<open>search\<close> exactly when the text is non-empty (filters other than
  \<open>search\<close>), and every filter key with the filter's value.
\<close>

theorem fetch_query_fields:
  assumes "''search'' \<notin> set (map fst (home_filters st))"
  shows "map_of (fetch_query st []) ''search'' =
           (if home_search st = [] then None else Some (home_search st))
     \<and> (\<forall>k \<in> set (map fst (home_filters st)).
           map_of (fetch_query st []) k = map_of (rev (home_filters st)) k)
     \<and> distinct (map fst (fetch_query st []))"
proof -
  have a: "map_of (rev (home_filters st)) ''search'' = None"
    using assms by (simp add: map_of_eq_None_iff)
  have b: "\<forall>k \<in> set (map fst (home_filters st)). map_of (rev (home_filters st)) k \<noteq> None"
    by (auto simp: map_of_eq_None_iff)
  show ?thesis
    using a b by (auto simp: fetch_query_def js_simps map_add_def split: option.splits)
qed

subsection \<open>Witnesses\<close>

theorem fetch_done_atomic_witness:
  "home_sys_step home_start (HFetchDone 0 (Inr (demo_page [demo_post 1 7] None))) =
     Some (fetch_posts_done (fst home_start) (Inr (demo_page [demo_post 1 7] None)), []) \<and>
   home_posts (fetch_posts_done (fst home_start) (Inr (demo_page [demo_post 1 7] None)))
     = [demo_post 1 7]"
proof -
  have h: "home_sys_step home_start (HFetchDone 0 (Inr (demo_page [demo_post 1 7] None))) =
     Some (fetch_posts_done (fst home_start) (Inr (demo_page [demo_post 1 7] None)), [])"
    by (simp add: feed_unfold)
  show ?thesis using h fetch_done_atomic [OF h] by (simp add: demo_page_def)
qed

theorem load_more_done_appends_witness:
  "home_sys_step
      (the (home_run home_start
        [HFetchDone 0 (Inr (demo_page [demo_post 1 7] (Some ''/posts/?page=2''))), HLoadMore]))
      (HMoreDone 0 (Inr (demo_page [demo_post 2 7] None))) =
    Some (the (home_run home_start
        [HFetchDone 0 (Inr (demo_page [demo_post 1 7] (Some ''/posts/?page=2''))), HLoadMore,
         HMoreDone 0 (Inr (demo_page [demo_post 2 7] None))])) \<and>
   home_posts (fst (the (home_run home_start
        [HFetchDone 0 (Inr (demo_page [demo_post 1 7] (Some ''/posts/?page=2''))), HLoadMore,
         HMoreDone 0 (Inr (demo_page [demo_post 2 7] None))]))) = [demo_post 1 7, demo_post 2 7]"
proof -
  have h: "home_sys_step
      (the (home_run home_start
        [HFetchDone 0 (Inr (demo_page [demo_post 1 7] (Some ''/posts/?page=2''))), HLoadMore]))
      (HMoreDone 0 (Inr (demo_page [demo_post 2 7] None))) =
    Some (the (home_run home_start
        [HFetchDone 0 (Inr (demo_page [demo_post 1 7] (Some ''/posts/?page=2''))), HLoadMore,
         HMoreDone 0 (Inr (demo_page [demo_post 2 7] None))]))"
    by (simp add: feed_unfold)
  show ?thesis using h load_more_done_appends [OF h] by (simp add: feed_unfold)
qed

theorem load_more_sends_cursor_witness:
  "home_sys_step
      (the (home_run home_start [HFetchDone 0 (Inr (demo_page [demo_post 1 7] (Some ''/posts/?page=2'')))]))
      HLoadMore =
    Some (the (home_run home_start
      [HFetchDone 0 (Inr (demo_page [demo_post 1 7] (Some ''/posts/?page=2''))), HLoadMore])) \<and>
   snd (the (home_run home_start
      [HFetchDone 0 (Inr (demo_page [demo_post 1 7] (Some ''/posts/?page=2''))), HLoadMore]))
     = [MoreReq ''/posts/?page=2'']"
proof -
  have h: "home_sys_step
      (the (home_run home_start [HFetchDone 0 (Inr (demo_page [demo_post 1 7] (Some ''/posts/?page=2'')))]))
      HLoadMore =
    Some (the (home_run home_start
      [HFetchDone 0 (Inr (demo_page [demo_post 1 7] (Some ''/posts/?page=2''))), HLoadMore]))"
    by (simp add: feed_unfold)
  show ?thesis using h load_more_sends_cursor [OF h] by (simp add: feed_unfold)
qed

theorem delete_done_effect_witness:
  "home_sys_step
      (the (home_run home_start [HFetchDone 0 (Inr (demo_page [demo_post 1 7, demo_post 2 8] None)),
                                 HDeleteClick (Some 7) True 1]))
      (HDeleteDone 0 (Inr ())) =
    Some (the (home_run home_start [HFetchDone 0 (Inr (demo_page [demo_post 1 7, demo_post 2 8] None)),
                                 HDeleteClick (Some 7) True 1, HDeleteDone 0 (Inr ())])) \<and>
   nth_opt (snd (the (home_run home_start
      [HFetchDone 0 (Inr (demo_page [demo_post 1 7, demo_post 2 8] None)),
       HDeleteClick (Some 7) True 1]))) 0 = Some (DeleteReq 1 [demo_post 1 7, demo_post 2 8]) \<and>
   home_posts (fst (the (home_run home_start
      [HFetchDone 0 (Inr (demo_page [demo_post 1 7, demo_post 2 8] None)),
       HDeleteClick (Some 7) True 1, HDeleteDone 0 (Inr ())]))) = [demo_post 2 8]"
proof -
  have h1: "home_sys_step
      (the (home_run home_start [HFetchDone 0 (Inr (demo_page [demo_post 1 7, demo_post 2 8] None)),
                                 HDeleteClick (Some 7) True 1]))
      (HDeleteDone 0 (Inr ())) =
    Some (the (home_run home_start [HFetchDone 0 (Inr (demo_page [demo_post 1 7, demo_post 2 8] None)),
                                 HDeleteClick (Some 7) True 1, HDeleteDone 0 (Inr ())]))"
    by (simp add: feed_unfold)
  have h2: "nth_opt (snd (the (home_run home_start
      [HFetchDone 0 (Inr (demo_page [demo_post 1 7, demo_post 2 8] None)),
       HDeleteClick (Some 7) True 1]))) 0 = Some (DeleteReq 1 [demo_post 1 7, demo_post 2 8])"
    by (simp add: feed_unfold)
  show ?thesis using h1 h2 delete_done_effect [OF h1 h2] by (simp add: demo_post_def)
qed

theorem handle_post_delete_removes_one_witness:
  "distinct (map post_id [demo_post 1 7, demo_post 2 8, demo_post 3 7]) \<and>
   (1::nat) < length [demo_post 1 7, demo_post 2 8, demo_post 3 7] \<and>
   handle_post_delete [demo_post 1 7, demo_post 2 8, demo_post 3 7] 2 = [demo_post 1 7, demo_post 3 7]"
proof -
  have h1: "distinct (map post_id [demo_post 1 7, demo_post 2 8, demo_post 3 7])"
    by (simp add: demo_post_def)
  have h2: "(1::nat) < length [demo_post 1 7, demo_post 2 8, demo_post 3 7]" by simp
  show ?thesis using h1 h2 handle_post_delete_removes_one [OF h1 h2]
    by (simp add: demo_post_def)
qed

theorem home_loading_has_fetch_witness:
  "home_reach home_start \<and> home_loading (fst home_start) \<and> fetch_pending (snd home_start)"
proof -
  have h1: "home_reach home_start" by (rule home_reach.start)
  have h2: "home_loading (fst home_start)" by (simp add: feed_unfold)
  show ?thesis using h1 h2 home_loading_has_fetch [OF h1 h2] by blast
qed

theorem fetch_query_fields_witness:
  "''search'' \<notin> set (map fst (home_filters
      (home_init\<lparr>home_search := ''abc'', home_filters := [(''author'', []), (''ordering'', ''-created_at'')]\<rparr>))) \<and>
   map_of (fetch_query
      (home_init\<lparr>home_search := ''abc'', home_filters := [(''author'', []), (''ordering'', ''-created_at'')]\<rparr>)
      []) ''search'' = Some ''abc''"
proof -
  have h: "''search'' \<notin> set (map fst (home_filters
      (home_init\<lparr>home_search := ''abc'', home_filters := [(''author'', []), (''ordering'', ''-created_at'')]\<rparr>)))"
    by simp
  show ?thesis using h fetch_query_fields [OF h] by simp
qed

end
