(* ===== verification/Search.thy ===== *)
theory Search
  imports Prelude
begin

text \<open>
  The search and filter bar, src/blog/src/components/SearchBar.jsx. Its React state is
  the search text, the filter object and the visibility of the filter panel; the
  \<open>setTimeout\<close> of its search effect is the pending timer (deadline and the text it
  closed over). Time is explicit: every event carries the time in milliseconds at which
  it happens, and before an event is handled every timer due by then fires. What the bar
  tells its parent (\<open>onSearch\<close>, \<open>onFilter\<close>) is its output, a list of emissions.
\<close>

subsection \<open>State and handlers\<close>

record sb_state =
  sb_query :: string
  sb_filters :: "(string \<times> string) list"
  sb_show_filters :: bool
  sb_timer :: "(nat \<times> string) option"
  sb_now :: nat

datatype sb_emit = EmitSearch string | EmitFilter "(string \<times> string) list"

definition sb_delay :: nat where
  "sb_delay = 500"

definition sb_default_filters :: "(string \<times> string) list" where
  "sb_default_filters = [(''author'', []), (''ordering'', ''-created_at'')]"

text \<open>The options of the ordering select.\<close>

definition sb_orderings :: "string list" where
  "sb_orderings = [''-created_at'', ''created_at'', ''title'', ''-title'']"

text \<open>
  The effect on \<open>[searchQuery, onSearch]\<close>: its cleanup clears the pending timeout, then
  a new one is set for the current text.
\<close>

definition sb_search_effect :: "sb_state \<Rightarrow> sb_state" where
  "sb_search_effect st = st\<lparr>sb_timer := Some (sb_now st + sb_delay, sb_query st)\<rparr>"

text \<open>The first render at time \<open>t\<close>, then both effects: the timer, and \<open>onFilter(filters)\<close>.\<close>

definition sb_mount :: "nat \<Rightarrow> sb_state \<times> sb_emit list" where
  "sb_mount t =
     (let st = \<lparr>sb_query = [], sb_filters = sb_default_filters, sb_show_filters = False,
                sb_timer = None, sb_now = t\<rparr>
      in (sb_search_effect st, [EmitFilter sb_default_filters]))"

text \<open>Time passes until \<open>t\<close>: a timer due by then calls \<open>onSearch\<close> with its text.\<close>

definition sb_advance :: "nat \<Rightarrow> sb_state \<Rightarrow> sb_state \<times> sb_emit list" where
  "sb_advance t st =
     (case sb_timer st of
        Some (d, q) \<Rightarrow>
          if d \<le> t then (st\<lparr>sb_timer := None, sb_now := t\<rparr>, [EmitSearch q])
          else (st\<lparr>sb_now := t\<rparr>, [])
      | None \<Rightarrow> (st\<lparr>sb_now := t\<rparr>, []))"

text \<open>
  The input's \<open>onChange\<close>: \<open>setSearchQuery(value)\<close>. React skips the render, and so
  the effect, when the value is the current one.
\<close>

definition set_search_query :: "string \<Rightarrow> sb_state \<Rightarrow> sb_state" where
  "set_search_query q st = (if q = sb_query st then st else sb_search_effect (st\<lparr>sb_query := q\<rparr>))"

text \<open>
  \<open>handleFilterChange(key, value)\<close>: \<open>setFilters(prev => ({...prev, [key]: value}))\<close>
  makes a new object, so the filter effect always runs and calls \<open>onFilter\<close>.
\<close>

definition handle_filter_change :: "string \<Rightarrow> string \<Rightarrow> sb_state \<Rightarrow> sb_state \<times> sb_emit list" where
  "handle_filter_change k v st =
     (let f = obj_set k v (sb_filters st) in (st\<lparr>sb_filters := f\<rparr>, [EmitFilter f]))"

text \<open>
  \<open>clearFilters\<close>: a new default filter object (the filter effect runs) and the empty
  text (the search effect runs if the text changes); one render for both updates.
\<close>

definition clear_filters :: "sb_state \<Rightarrow> sb_state \<times> sb_emit list" where
  "clear_filters st =
     (let st' = set_search_query [] (st\<lparr>sb_filters := sb_default_filters\<rparr>)
      in (st', [EmitFilter sb_default_filters]))"

text \<open>The "Clear All" button exists when a search or a non-default filter is active.\<close>

definition clear_shown :: "sb_state \<Rightarrow> bool" where
  "clear_shown st \<longleftrightarrow>
     sb_query st \<noteq> [] \<or> js_truthy_str (map_of (sb_filters st) ''author'')
     \<or> map_of (sb_filters st) ''ordering'' \<noteq> Some ''-created_at''"

subsection \<open>The bar as a timed machine\<close>

datatype sb_event =
    SType nat string
  | SFilter nat string string
  | SClear nat
  | SToggle nat
  | STick nat

fun sb_event_time :: "sb_event \<Rightarrow> nat" where
  "sb_event_time (SType t _) = t"
| "sb_event_time (SFilter t _ _) = t"
| "sb_event_time (SClear t) = t"
| "sb_event_time (SToggle t) = t"
| "sb_event_time (STick t) = t"

text \<open>
  The handler of an event, after the timers due at its time have fired. The filter inputs
  exist only while the panel is shown, and the ordering select offers its four options.
\<close>

fun sb_handle :: "sb_state \<Rightarrow> sb_event \<Rightarrow> (sb_state \<times> sb_emit list) option" where
  "sb_handle st (SType t q) = Some (set_search_query q st, [])"
| "sb_handle st (SFilter t k v) =
     (if sb_show_filters st \<and> (k = ''author'' \<or> (k = ''ordering'' \<and> v \<in> set sb_orderings))
      then Some (handle_filter_change k v st) else None)"
| "sb_handle st (SClear t) = (if clear_shown st then Some (clear_filters st) else None)"
| "sb_handle st (SToggle t) = Some (st\<lparr>sb_show_filters := \<not> sb_show_filters st\<rparr>, [])"
| "sb_handle st (STick t) = Some (st, [])"

definition sb_step :: "sb_state \<Rightarrow> sb_event \<Rightarrow> (sb_state \<times> sb_emit list) option" where
  "sb_step st e =
     (if sb_event_time e < sb_now st then None
      else (let (st1, out1) = sb_advance (sb_event_time e) st in
            case sb_handle st1 e of
              None \<Rightarrow> None
            | Some (st2, out2) \<Rightarrow> Some (st2, out1 @ out2)))"

fun sb_run :: "sb_state \<Rightarrow> sb_event list \<Rightarrow> (sb_state \<times> sb_emit list) option" where
  "sb_run st [] = Some (st, [])"
| "sb_run st (e # es) =
     (case sb_step st e of
        None \<Rightarrow> None
      | Some (st1, out1) \<Rightarrow>
          (case sb_run st1 es of None \<Rightarrow> None | Some (st2, out2) \<Rightarrow> Some (st2, out1 @ out2)))"

text \<open>
  A burst of typing: keystrokes in time order, each changing the text and each less than
  the delay after the one before.
\<close>

fun typing_burst :: "nat \<Rightarrow> string \<Rightarrow> (nat \<times> string) list \<Rightarrow> bool" where
  "typing_burst now cur [] = True"
| "typing_burst now cur ((t, q) # ks) =
     (now \<le> t \<and> q \<noteq> cur \<and> (case ks of [] \<Rightarrow> True | (t', _) # _ \<Rightarrow> t' < t + sb_delay)
      \<and> typing_burst t q ks)"

definition keystrokes :: "(nat \<times> string) list \<Rightarrow> sb_event list" where
  "keystrokes ks = map (\<lambda>(t, q). SType t q) ks"

text \<open>The states the bar can reach from its mount.\<close>

inductive sb_reach :: "sb_state \<Rightarrow> bool" where
  start: "sb_reach (fst (sb_mount t))"
| step: "sb_reach st \<Longrightarrow> sb_step st e = Some (st', out) \<Longrightarrow> sb_reach st'"

text \<open>A pending timer carries the text currently in the input.\<close>

fun sb_timer_current :: "sb_state \<Rightarrow> bool" where
  "sb_timer_current st \<longleftrightarrow> (case sb_timer st of None \<Rightarrow> True | Some (d, q) \<Rightarrow> q = sb_query st)"


subsection \<open>Lemmas\<close>


lemma sb_run_append:
  "sb_run st (es1 @ es2) =
     (case sb_run st es1 of
        None \<Rightarrow> None
      | Some (s1, o1) \<Rightarrow> (case sb_run s1 es2 of None \<Rightarrow> None | Some (s2, o2) \<Rightarrow> Some (s2, o1 @ o2)))"
  by (induction es1 arbitrary: st) (auto split: option.splits prod.splits)

lemma sb_step_type_quiet:
  assumes "sb_now st \<le> t" and "q \<noteq> sb_query st"
    and "case sb_timer st of None \<Rightarrow> True | Some (d, _) \<Rightarrow> t < d"
  shows "sb_step st (SType t q) =
           Some (st\<lparr>sb_query := q, sb_timer := Some (t + sb_delay, q), sb_now := t\<rparr>, [])"
  using assms
  by (auto simp: sb_step_def sb_advance_def set_search_query_def sb_search_effect_def
      split: option.splits)

lemma burst_run:
  assumes "typing_burst (sb_now st) (sb_query st) ks" and "ks \<noteq> []"
    and "case sb_timer st of None \<Rightarrow> True | Some (d, _) \<Rightarrow> fst (hd ks) < d"
  shows "sb_run st (keystrokes ks) =
           Some (st\<lparr>sb_query := snd (last ks), sb_timer := Some (fst (last ks) + sb_delay, snd (last ks)),
                    sb_now := fst (last ks)\<rparr>, [])"
  using assms
proof (induction ks arbitrary: st)
  case Nil
  then show ?case by simp
next
  case (Cons k ks)
  obtain t q where k: "k = (t, q)" by fastforce
  let ?st1 = "st\<lparr>sb_query := q, sb_timer := Some (t + sb_delay, q), sb_now := t\<rparr>"
  from Cons.prems k have step: "sb_step st (SType t q) = Some (?st1, [])"
    by (intro sb_step_type_quiet) (auto split: option.splits)
  show ?case
  proof (cases ks)
    case Nil
    with step k show ?thesis by (simp add: keystrokes_def)
  next
    case (Cons k' ks')
    obtain t' q' where k': "k' = (t', q')" by fastforce
    from Cons.prems k \<open>ks = k' # ks'\<close> k'
    have "typing_burst (sb_now ?st1) (sb_query ?st1) ks"
      and "case sb_timer ?st1 of None \<Rightarrow> True | Some (d, _) \<Rightarrow> fst (hd ks) < d"
      by auto
    with Cons.IH [of ?st1] \<open>ks = k' # ks'\<close>
    have "sb_run ?st1 (keystrokes ks) =
           Some (?st1\<lparr>sb_query := snd (last ks), sb_timer := Some (fst (last ks) + sb_delay, snd (last ks)),
                    sb_now := fst (last ks)\<rparr>, [])"
      by blast
    with step k \<open>ks = k' # ks'\<close> show ?thesis by (simp add: keystrokes_def)
  qed
qed


text \<open>
  C18. Debounce: a burst of keystrokes, each less than 500 ms after the one before, followed
  by 500 ms of quiet, makes the bar call \<open>onSearch\<close> exactly once, with the last text
  typed, and nothing is pending afterwards (section 4.5; section 8, the "a", "ab", "abc"
  scenario is the witness).
\<close>

theorem debounce_single_emission:
  assumes "typing_burst (sb_now st) (sb_query st) ks" and "ks \<noteq> []"
    and "case sb_timer st of None \<Rightarrow> True | Some (d, _) \<Rightarrow> fst (hd ks) < d"
    and "fst (last ks) + sb_delay \<le> t"
  shows "\<exists>st'. sb_run st (keystrokes ks @ [STick t]) = Some (st', [EmitSearch (snd (last ks))])
            \<and> sb_timer st' = None \<and> sb_query st' = snd (last ks)"
proof -
  let ?st1 = "st\<lparr>sb_query := snd (last ks), sb_timer := Some (fst (last ks) + sb_delay, snd (last ks)),
                  sb_now := fst (last ks)\<rparr>"
  have "sb_run st (keystrokes ks) = Some (?st1, [])" using assms(1-3) by (rule burst_run)
  moreover have "sb_run ?st1 [STick t] = Some (?st1\<lparr>sb_timer := None, sb_now := t\<rparr>, [EmitSearch (snd (last ks))])"
    using assms(4) by (simp add: sb_step_def sb_advance_def)
  ultimately show ?thesis by (simp add: sb_run_append)
qed

lemma sb_timer_current_step:
  assumes "sb_timer_current st" and "sb_step st e = Some (st', out)"
  shows "sb_timer_current st' \<and> (\<forall>q\<in>set out. \<forall>s. q = EmitSearch s \<longrightarrow> s = sb_query st)"
  using assms
  by (cases e)
     (auto simp: sb_step_def sb_advance_def set_search_query_def sb_search_effect_def
       handle_filter_change_def clear_filters_def Let_def split: option.splits if_splits prod.splits)


text \<open>
  In every reachable state of the bar, a search the bar emits carries the text in the
  input at that moment: no stale text is ever sent to the feed.
\<close>

theorem sb_emits_current_text:
  assumes "sb_reach st" and "sb_step st e = Some (st', out)" and "EmitSearch s \<in> set out"
  shows "s = sb_query st"
proof -
  have "sb_timer_current st"
    using assms(1)
  proof (induction rule: sb_reach.induct)
    case (start t)
    show ?case by (simp add: sb_mount_def sb_search_effect_def)
  next
    case (step st e st' out)
    then show ?case using sb_timer_current_step by blast
  qed
  with assms(2,3) show ?thesis using sb_timer_current_step by blast
qed


text \<open>
  A filter change is emitted at once, not debounced: the step that handles it ends
  with \<open>onFilter\<close> of the updated filter object (after any search timer due by then),
  and leaves the search text alone.
\<close>

theorem filter_change_immediate:
  assumes "sb_step st (SFilter t k v) = Some (st', out)"
  shows "\<exists>due. out = due @ [EmitFilter (obj_set k v (sb_filters st))] \<and> sb_filters st' = obj_set k v (sb_filters st)
     \<and> sb_query st' = sb_query st"
  using assms
  by (auto simp: sb_step_def sb_advance_def handle_filter_change_def Let_def
      split: option.splits if_splits prod.splits)


subsection \<open>Witnesses\<close>

theorem debounce_single_emission_witness:
  "typing_burst (sb_now (fst (sb_mount 0))) (sb_query (fst (sb_mount 0)))
      [(100, ''a''), (200, ''ab''), (300, ''abc'')] \<and>
   (case sb_timer (fst (sb_mount 0)) of None \<Rightarrow> True | Some (d, _) \<Rightarrow> (100::nat) < d) \<and>
   (\<exists>st'. sb_run (fst (sb_mount 0)) (keystrokes [(100, ''a''), (200, ''ab''), (300, ''abc'')] @ [STick 900])
      = Some (st', [EmitSearch ''abc'']))"
proof -
  let ?ks = "[(100::nat, ''a''), (200, ''ab''), (300, ''abc'')]"
  have h1: "typing_burst (sb_now (fst (sb_mount 0))) (sb_query (fst (sb_mount 0))) ?ks"
    by (simp add: sb_mount_def sb_search_effect_def sb_delay_def)
  have h2: "?ks \<noteq> []" by simp
  have h3: "case sb_timer (fst (sb_mount 0)) of None \<Rightarrow> True | Some (d, _) \<Rightarrow> fst (hd ?ks) < d"
    by (simp add: sb_mount_def sb_search_effect_def sb_delay_def)
  have h4: "fst (last ?ks) + sb_delay \<le> 900" by (simp add: sb_delay_def)
  have c: "case sb_timer (fst (sb_mount 0)) of None \<Rightarrow> True | Some (d, _) \<Rightarrow> (100::nat) < d"
    by (simp add: sb_mount_def sb_search_effect_def sb_delay_def)
  have "\<exists>st'. sb_run (fst (sb_mount 0)) (keystrokes ?ks @ [STick 900]) = Some (st', [EmitSearch ''abc''])"
    using debounce_single_emission [OF h1 h2 h3 h4] by auto
  with h1 c show ?thesis by blast
qed

theorem sb_emits_current_text_witness:
  "sb_reach (fst (sb_mount 0)) \<and>
   sb_step (fst (sb_mount 0)) (STick 500) = Some ((fst (sb_mount 0))\<lparr>sb_timer := None, sb_now := 500\<rparr>, [EmitSearch []]) \<and>
   EmitSearch [] \<in> set [EmitSearch []] \<and> [] = sb_query (fst (sb_mount 0))"
proof -
  have h1: "sb_reach (fst (sb_mount 0))" by (rule sb_reach.start)
  have h2: "sb_step (fst (sb_mount 0)) (STick 500) =
              Some ((fst (sb_mount 0))\<lparr>sb_timer := None, sb_now := 500\<rparr>, [EmitSearch []])"
    by (simp add: sb_mount_def sb_search_effect_def sb_step_def sb_advance_def sb_delay_def)
  have h3: "EmitSearch [] \<in> set [EmitSearch []]" by simp
  show ?thesis using h1 h2 h3 sb_emits_current_text [OF h1 h2 h3] by simp
qed

theorem filter_change_immediate_witness:
  "sb_step ((fst (sb_mount 0))\<lparr>sb_show_filters := True\<rparr>) (SFilter 10 ''ordering'' ''title'') =
     Some (the (sb_step ((fst (sb_mount 0))\<lparr>sb_show_filters := True\<rparr>) (SFilter 10 ''ordering'' ''title''))) \<and>
   sb_filters (fst (the (sb_step ((fst (sb_mount 0))\<lparr>sb_show_filters := True\<rparr>) (SFilter 10 ''ordering'' ''title''))))
     = [(''author'', []), (''ordering'', ''title'')]"
proof -
  let ?st = "(fst (sb_mount 0))\<lparr>sb_show_filters := True\<rparr>"
  let ?r = "the (sb_step ?st (SFilter 10 ''ordering'' ''title''))"
  have h: "sb_step ?st (SFilter 10 ''ordering'' ''title'') = Some (fst ?r, snd ?r)"
    by (simp add: sb_mount_def sb_search_effect_def sb_step_def sb_advance_def sb_delay_def
        handle_filter_change_def sb_orderings_def sb_default_filters_def)
  have "sb_filters (fst ?r) = obj_set ''ordering'' ''title'' (sb_filters ?st)"
    using filter_change_immediate [OF h] by blast
  then have "sb_filters (fst ?r) = [(''author'', []), (''ordering'', ''title'')]"
    by (simp add: sb_mount_def sb_search_effect_def sb_default_filters_def)
  with h show ?thesis by simp
qed

end
