(* ===== verification/HomePage.thy ===== *)
theory HomePage
  imports Feed Search
begin

text \<open>
  The home page as React runs it: Home (src/blog/src/pages/Home.jsx) with its child
  SearchBar (src/blog/src/components/SearchBar.jsx), rendered as
  \<open><SearchBar onSearch={handleSearch} onFilter={handleFilter}/>\<close>. Three facts of the
  code shape the composition. Home returns a bare spinner while
  \<open>loading && posts.length === 0\<close>, so SearchBar is unmounted then (its state and
  its timer are lost) and mounted afresh when the spinner goes. \<open>handleSearch\<close> and
  \<open>handleFilter\<close> are new functions on every render of Home, and both effects of
  SearchBar depend on them, so every render of Home re-runs both effects: the search
  timer is re-armed and \<open>onFilter(filters)\<close> is called again. React skips
  \<open>setFilters\<close> when the object is the one already held, so objects are compared by
  identity: each object literal gets a fresh number.
\<close>

subsection \<open>State\<close>

record page_state =
  hp_home :: home_sys
  hp_bar :: "sb_state option"
  hp_bar_obj :: nat
  hp_home_obj :: nat
  hp_objs :: nat
  hp_clock :: nat

text \<open>Home's render: the spinner alone, or the page with SearchBar.\<close>

definition bar_shown :: "home_state \<Rightarrow> bool" where
  "bar_shown st \<longleftrightarrow> \<not> (home_loading st \<and> home_posts st = [])"

text \<open>
  The first render of Home (the spinner) and its effect's fetch; Home's initial
  \<open>filters\<close> object is object 0.
\<close>

definition page_start :: page_state where
  "page_start = \<lparr>hp_home = home_start, hp_bar = None, hp_bar_obj = 0, hp_home_obj = 0,
                  hp_objs = 1, hp_clock = 0\<rparr>"

text \<open>
  SearchBar's filter effect, \<open>onFilter(filters)\<close>: \<open>None\<close> when React skips
  \<open>setFilters\<close> (the object Home holds), otherwise Home's new state, whose effect fetches.
\<close>

definition offer_filter :: "page_state \<Rightarrow> page_state option" where
  "offer_filter p =
     (case hp_bar p of
        None \<Rightarrow> None
      | Some st \<Rightarrow>
          if hp_bar_obj p = hp_home_obj p then None
          else Some (p\<lparr>hp_home := handle_filter (sb_filters st) (hp_home p), hp_home_obj := hp_bar_obj p\<rparr>))"

text \<open>
  After Home's state changed (\<open>rendered\<close>), or SearchBar may have to appear or go:
  unmount it under the spinner; mount it (new state, new filter object, both effects) when
  the spinner goes; re-run both its effects when Home rendered. A filter offered to Home
  renders Home again. The cascade is bounded; \<open>page_settle_total\<close> shows three rounds
  always suffice.
\<close>

fun page_settle :: "nat \<Rightarrow> bool \<Rightarrow> page_state \<Rightarrow> page_state option" where
  "page_settle 0 rendered p = None"
| "page_settle (Suc n) rendered p =
     (if \<not> bar_shown (fst (hp_home p)) then Some (p\<lparr>hp_bar := None\<rparr>)
      else (case hp_bar p of
              None \<Rightarrow>
                (let p1 = p\<lparr>hp_bar := Some (fst (sb_mount (hp_clock p))), hp_bar_obj := hp_objs p,
                            hp_objs := Suc (hp_objs p)\<rparr>
                 in case offer_filter p1 of None \<Rightarrow> Some p1 | Some p2 \<Rightarrow> page_settle n True p2)
            | Some st \<Rightarrow>
                if \<not> rendered then Some p
                else (let p1 = p\<lparr>hp_bar := Some (sb_search_effect st)\<rparr>
                      in case offer_filter p1 of None \<Rightarrow> Some p1 | Some p2 \<Rightarrow> page_settle n True p2)))"

definition page_fuel :: nat where
  "page_fuel = 3"

text \<open>
  Which answers render Home: \<open>setPosts\<close> and \<open>setPagination\<close> always store new
  objects; the failed fetch's \<open>setLoading(false)\<close> renders only if the flag was set;
  the failed load-more and delete only toast; a click renders nothing of Home.
\<close>

fun home_rerenders :: "home_state \<Rightarrow> home_event \<Rightarrow> bool" where
  "home_rerenders st (HFetchDone i r) = (\<not> isl r \<or> home_loading st)"
| "home_rerenders st (HMoreDone i r) = (\<not> isl r)"
| "home_rerenders st (HDeleteDone i r) = (\<not> isl r)"
| "home_rerenders st e = False"

text \<open>Events happen at a time; a due timer fires first.\<close>

definition page_quiet :: "nat \<Rightarrow> page_state \<Rightarrow> bool" where
  "page_quiet t p \<longleftrightarrow>
     hp_clock p \<le> t \<and>
     (case hp_bar p of None \<Rightarrow> True
      | Some st \<Rightarrow> (case sb_timer st of None \<Rightarrow> True | Some (d, _) \<Rightarrow> t < d))"

definition page_at :: "nat \<Rightarrow> page_state \<Rightarrow> page_state" where
  "page_at t p = p\<lparr>hp_clock := t, hp_bar := map_option (\<lambda>st. st\<lparr>sb_now := t\<rparr>) (hp_bar p)\<rparr>"

datatype page_event =
    PBar sb_event
  | PTimer
  | PHome nat home_event

fun is_tick :: "sb_event \<Rightarrow> bool" where
  "is_tick (STick _) = True"
| "is_tick _ = False"

text \<open>
  A user action on the bar: a filter change makes a new object and calls \<open>onFilter\<close>.
  The timer: \<open>onSearch(text)\<close>, which renders Home unless the text is Home's.
  An answer or a click of Home's own.
\<close>

fun page_step :: "page_state \<Rightarrow> page_event \<Rightarrow> page_state option" where
  "page_step p (PBar e) =
     (case hp_bar p of
        None \<Rightarrow> None
      | Some st \<Rightarrow>
          if is_tick e \<or> \<not> page_quiet (sb_event_time e) p then None
          else (let p0 = page_at (sb_event_time e) p in
                case sb_handle (the (hp_bar p0)) e of
                  None \<Rightarrow> None
                | Some (st', outs) \<Rightarrow>
                    if outs = [] then Some (p0\<lparr>hp_bar := Some st'\<rparr>)
                    else (let p1 = p0\<lparr>hp_bar := Some st', hp_bar_obj := hp_objs p0,
                                      hp_objs := Suc (hp_objs p0)\<rparr>
                          in case offer_filter p1 of None \<Rightarrow> Some p1
                             | Some p2 \<Rightarrow> page_settle page_fuel True p2)))"
| "page_step p PTimer =
     (case hp_bar p of
        None \<Rightarrow> None
      | Some st \<Rightarrow>
          (case sb_timer st of
             None \<Rightarrow> None
           | Some (d, q) \<Rightarrow>
               if d < hp_clock p then None
               else (let p1 = page_at d (p\<lparr>hp_bar := Some (fst (sb_advance d st))\<rparr>) in
                     if q = home_search (fst (hp_home p1)) then Some p1
                     else page_settle page_fuel True (p1\<lparr>hp_home := handle_search q (hp_home p1)\<rparr>))))"
| "page_step p (PHome t e) =
     (if \<not> page_quiet t p \<or> (case e of HSearch _ \<Rightarrow> True | HFilter _ \<Rightarrow> True | _ \<Rightarrow> False) then None
      else (case home_sys_step (hp_home p) e of
              None \<Rightarrow> None
            | Some hs' \<Rightarrow>
                (let p1 = page_at t (p\<lparr>hp_home := hs'\<rparr>) in
                 if home_rerenders (fst (hp_home p)) e then page_settle page_fuel True p1 else Some p1)))"

fun page_run :: "page_state \<Rightarrow> page_event list \<Rightarrow> page_state option" where
  "page_run p [] = Some p"
| "page_run p (e # es) = (case page_step p e of None \<Rightarrow> None | Some p' \<Rightarrow> page_run p' es)"

inductive page_reach :: "page_state \<Rightarrow> bool" where
  start: "page_reach page_start"
| step: "page_reach p \<Longrightarrow> page_step p e = Some p' \<Longrightarrow> page_reach p'"

text \<open>
  The page shows only the spinner, SearchBar is unmounted, and one fetch is in flight.
\<close>

definition page_spinning :: "page_state \<Rightarrow> bool" where
  "page_spinning p \<longleftrightarrow>
     hp_bar p = None \<and> home_loading (fst (hp_home p)) \<and> home_posts (fst (hp_home p)) = [] \<and>
     (case snd (hp_home p) of [FetchReq q] \<Rightarrow> True | _ \<Rightarrow> False) \<and> hp_home_obj p < hp_objs p"

text \<open>The answers of the fetch in flight, each at its time.\<close>

definition fetch_answers :: "(nat \<times> page) list \<Rightarrow> page_event list" where
  "fetch_answers ans = map (\<lambda>(t, pg). PHome t (HFetchDone 0 (Inr pg))) ans"

text \<open>The page once the first fetch has answered with one post (the bar just mounted).\<close>

definition page_loaded :: page_state where
  "page_loaded = the (page_run page_start [PHome 10 (HFetchDone 0 (Inr (demo_page [demo_post 1 7] None)))])"

text \<open>
  Well-formed states: the bar's filter object has the keys \<open>author\<close>, \<open>ordering\<close>;
  Home's is its initial empty object or one the bar handed over; every fetch in flight
  has distinct keys among \<open>search\<close>, \<open>author\<close>, \<open>ordering\<close>.
\<close>

definition filters_ok :: "(string \<times> string) list \<Rightarrow> bool" where
  "filters_ok f \<longleftrightarrow> map fst f = [''author'', ''ordering'']"

fun fetch_ok :: "home_req \<Rightarrow> bool" where
  "fetch_ok (FetchReq q) \<longleftrightarrow>
     set (map fst q) \<subseteq> {''search'', ''author'', ''ordering''} \<and> distinct (map fst q)"
| "fetch_ok _ \<longleftrightarrow> True"

definition home_wf :: "home_sys \<Rightarrow> bool" where
  "home_wf hs \<longleftrightarrow>
     (home_filters (fst hs) = [] \<or> filters_ok (home_filters (fst hs))) \<and> list_all fetch_ok (snd hs)"

definition page_wf :: "page_state \<Rightarrow> bool" where
  "page_wf p \<longleftrightarrow>
     (case hp_bar p of None \<Rightarrow> True | Some st \<Rightarrow> filters_ok (sb_filters st)) \<and> home_wf (hp_home p)"

text \<open>SearchBar holds the filter object Home holds (React skips the next \<open>setFilters\<close>).\<close>

definition page_synced :: "page_state \<Rightarrow> bool" where
  "page_synced p \<longleftrightarrow> (hp_bar p \<noteq> None \<longrightarrow> hp_bar_obj p = hp_home_obj p)"

subsection \<open>Lemmas\<close>

lemma offer_filter_same:
  "offer_filter p = Some p' \<Longrightarrow> hp_bar_obj p' = hp_home_obj p' \<and> hp_bar p' = hp_bar p"
  by (auto simp: offer_filter_def split: option.splits if_splits)

lemma page_settle_synced:
  assumes "hp_bar p \<noteq> None" and "hp_bar_obj p = hp_home_obj p"
  shows "page_settle (Suc n) r p \<noteq> None"
  using assms by (auto simp: offer_filter_def Let_def split: option.splits)

lemma page_spinning_start: "page_spinning page_start"
  by (simp add: page_spinning_def page_start_def feed_unfold)

lemma spin_round:
  assumes spin: "page_spinning p" and t: "hp_clock p \<le> t" and empty: "page_results pg = []"
  shows "\<exists>p'. page_step p (PHome t (HFetchDone 0 (Inr pg))) = Some p' \<and> page_spinning p' \<and> hp_clock p' = t"
proof -
  obtain st q where hs: "hp_home p = (st, [FetchReq q])"
    using spin by (cases "hp_home p") (auto simp: page_spinning_def split: list.splits home_req.splits)
  from spin have bar: "hp_bar p = None" and obj: "hp_home_obj p < hp_objs p"
    by (simp_all add: page_spinning_def)
  then show ?thesis
    using hs t empty
    by (simp add: page_quiet_def page_at_def page_fuel_def numeral_3_eq_3 bar_shown_def
        offer_filter_def handle_filter_def fetch_posts_def page_spinning_def nth_opt_def remove_nth_eq)
qed

lemma page_run_append:
  "page_run p (es @ fs) = (case page_run p es of None \<Rightarrow> None | Some p' \<Rightarrow> page_run p' fs)"
  by (induction es arbitrary: p) (auto split: option.splits)

lemma page_type_step:
  assumes "hp_bar p = Some st" and "page_quiet t p" and "q \<noteq> sb_query st"
  shows "page_step p (PBar (SType t q)) =
           Some (p\<lparr>hp_clock := t, hp_bar := Some (st\<lparr>sb_query := q, sb_timer := Some (t + sb_delay, q),
                   sb_now := t\<rparr>)\<rparr>)"
  using assms by (simp add: page_at_def set_search_query_def sb_search_effect_def)

lemma page_burst:
  assumes "hp_bar p = Some st" and "typing_burst (hp_clock p) (sb_query st) ks" and "ks \<noteq> []"
    and "case sb_timer st of None \<Rightarrow> True | Some (d, _) \<Rightarrow> fst (hd ks) < d"
  shows "page_run p (map PBar (keystrokes ks)) =
           Some (p\<lparr>hp_clock := fst (last ks),
                   hp_bar := Some (st\<lparr>sb_query := snd (last ks),
                     sb_timer := Some (fst (last ks) + sb_delay, snd (last ks)), sb_now := fst (last ks)\<rparr>)\<rparr>)"
  using assms
proof (induction ks arbitrary: p st)
  case Nil
  then show ?case by simp
next
  case (Cons k ks)
  obtain t q where k: "k = (t, q)" by fastforce
  from Cons.prems k have quiet: "page_quiet t p" and new: "q \<noteq> sb_query st"
    by (auto simp: page_quiet_def split: option.splits)
  let ?st1 = "st\<lparr>sb_query := q, sb_timer := Some (t + sb_delay, q), sb_now := t\<rparr>"
  let ?p1 = "p\<lparr>hp_clock := t, hp_bar := Some ?st1\<rparr>"
  have step: "page_step p (PBar (SType t q)) = Some ?p1"
    using page_type_step [OF Cons.prems(1) quiet new] .
  show ?case
  proof (cases ks)
    case Nil
    with step k show ?thesis by (simp add: keystrokes_def)
  next
    case (Cons k' ks')
    from Cons.prems k \<open>ks = k' # ks'\<close>
    have "typing_burst (hp_clock ?p1) (sb_query ?st1) ks"
      and "case sb_timer ?st1 of None \<Rightarrow> True | Some (d, _) \<Rightarrow> fst (hd ks) < d"
      by (auto split: prod.splits)
    with Cons.IH [of ?p1 ?st1] \<open>ks = k' # ks'\<close>
    have "page_run ?p1 (map PBar (keystrokes ks)) =
           Some (?p1\<lparr>hp_clock := fst (last ks),
                   hp_bar := Some (?st1\<lparr>sb_query := snd (last ks),
                     sb_timer := Some (fst (last ks) + sb_delay, snd (last ks)), sb_now := fst (last ks)\<rparr>)\<rparr>)"
      by simp
    with step k \<open>ks = k' # ks'\<close> show ?thesis by (simp add: keystrokes_def)
  qed
qed

lemmas page_unfold = page_start_def feed_unfold page_quiet_def page_at_def page_fuel_def numeral_3_eq_3
      bar_shown_def offer_filter_def sb_mount_def sb_search_effect_def sb_default_filters_def
      sb_advance_def set_search_query_def sb_delay_def handle_filter_change_def sb_orderings_def
      page_spinning_def Let_def clear_filters_def clear_shown_def keystrokes_def

lemma page_loaded_eq:
  "page_loaded = \<lparr>hp_home = (home_init\<lparr>home_posts := [demo_post 1 7], home_loading := True,
       home_filters := sb_default_filters, home_pagination := page_pagination (demo_page [demo_post 1 7] None)\<rparr>,
       [FetchReq sb_default_filters]),
     hp_bar = Some \<lparr>sb_query = [], sb_filters = sb_default_filters, sb_show_filters = False,
       sb_timer = Some (510, []), sb_now = 10\<rparr>,
     hp_bar_obj = 1, hp_home_obj = 1, hp_objs = 2, hp_clock = 10\<rparr>"
  by (simp add: page_loaded_def page_unfold)

lemma page_settle_consistent:
  "page_settle n r p = Some p' \<Longrightarrow> (hp_bar p' \<noteq> None) = bar_shown (fst (hp_home p'))"
proof (induction n arbitrary: r p)
  case 0
  then show ?case by simp
next
  case (Suc n)
  then show ?case
    by (auto simp: Let_def offer_filter_def split: option.splits if_splits)
qed

lemma home_quiet_shown:
  assumes "home_sys_step (st, rs) e = Some (st', rs')" and "\<not> home_rerenders st e"
    and "case e of HSearch _ \<Rightarrow> False | HFilter _ \<Rightarrow> False | _ \<Rightarrow> True"
  shows "bar_shown st' = bar_shown st"
  using assms
  by (cases e) (auto simp: bar_shown_def load_more_def card_delete_click_def isl_def
      split: if_splits option.splits home_req.splits sum.splits)

lemma page_step_consistent:
  assumes "page_step p e = Some p'" and "(hp_bar p \<noteq> None) = bar_shown (fst (hp_home p))"
  shows "(hp_bar p' \<noteq> None) = bar_shown (fst (hp_home p'))"
proof (cases e)
  case (PBar b)
  with assms show ?thesis
    by (auto simp: Let_def page_at_def offer_filter_def dest: page_settle_consistent
        split: option.splits if_splits prod.splits)
next
  case PTimer
  with assms show ?thesis
    by (auto simp: Let_def page_at_def dest: page_settle_consistent split: option.splits if_splits prod.splits)
next
  case (PHome t h)
  from assms(1) PHome obtain hs' where
    hs: "home_sys_step (hp_home p) h = Some hs'"
    and own: "case h of HSearch _ \<Rightarrow> False | HFilter _ \<Rightarrow> False | _ \<Rightarrow> True"
    and p': "p' = (if home_rerenders (fst (hp_home p)) h
                   then the (page_settle page_fuel True (page_at t (p\<lparr>hp_home := hs'\<rparr>)))
                   else page_at t (p\<lparr>hp_home := hs'\<rparr>))"
    by (auto simp: Let_def split: option.splits if_splits home_event.splits)
  show ?thesis
  proof (cases "home_rerenders (fst (hp_home p)) h")
    case True
    with assms(1) PHome hs show ?thesis
      by (auto simp: Let_def dest: page_settle_consistent split: if_splits)
  next
    case False
    have "bar_shown (fst hs') = bar_shown (fst (hp_home p))"
      using home_quiet_shown [of "fst (hp_home p)" "snd (hp_home p)" h "fst hs'" "snd hs'"] hs False own
      by simp
    with False p' assms(2) show ?thesis by (simp add: page_at_def)
  qed
qed

lemma offer_filter_None_synced:
  "offer_filter p = None \<Longrightarrow> page_synced p"
  by (auto simp: offer_filter_def page_synced_def split: option.splits if_splits)

lemma page_settle_synced_out:
  "page_settle n r p = Some p' \<Longrightarrow> page_synced p \<Longrightarrow> page_synced p'"
proof (induction n arbitrary: r p)
  case 0
  then show ?case by simp
next
  case (Suc n)
  then show ?case
    by (auto simp: Let_def page_synced_def offer_filter_def split: option.splits if_splits)
qed

lemma page_step_synced:
  assumes "page_step p e = Some p'" and "page_synced p"
  shows "page_synced p'"
proof (cases e)
  case (PBar b)
  with assms show ?thesis
    by (auto simp: Let_def page_at_def page_synced_def offer_filter_def
        dest!: page_settle_synced_out split: option.splits if_splits prod.splits)
next
  case PTimer
  with assms show ?thesis
    by (auto simp: Let_def page_at_def page_synced_def dest!: page_settle_synced_out
        split: option.splits if_splits prod.splits)
next
  case (PHome t h)
  with assms show ?thesis
    by (auto simp: Let_def page_at_def page_synced_def dest!: page_settle_synced_out
        split: option.splits if_splits)
qed

lemma fetch_posts_wf: "home_wf hs \<Longrightarrow> home_wf (fetch_posts [] hs)"
proof -
  assume wf: "home_wf hs"
  obtain st rs where hs: "hs = (st, rs)" by (rule prod.exhaust)
  let ?a = "obj_spread [] (if home_search st = [] then [] else [(''search'', home_search st)])"
  have a: "distinct (map fst ?a)" "set (map fst ?a) \<subseteq> {''search''}"
    by (simp_all add: keys_obj_spread distinct_obj_spread)
  have f: "set (map fst (home_filters st)) \<subseteq> {''author'', ''ordering''}"
    using wf hs by (auto simp: home_wf_def filters_ok_def)
  have "set (map fst (fetch_query st [])) = set (map fst ?a) \<union> set (map fst (home_filters st))"
    by (simp only: fetch_query_def keys_obj_spread)
  with a f have k: "set (map fst (fetch_query st [])) \<subseteq> {''search'', ''author'', ''ordering''}" by blast
  have "distinct (map fst (fetch_query st []))"
    using a by (simp add: fetch_query_def distinct_obj_spread)
  with k have "fetch_ok (FetchReq (fetch_query st []))" by simp
  with wf hs show ?thesis by (simp add: home_wf_def fetch_posts_def)
qed

lemma handle_search_wf: "home_wf hs \<Longrightarrow> home_wf (handle_search q hs)"
  using fetch_posts_wf [of "(fst hs\<lparr>home_search := q\<rparr>, snd hs)"]
  by (cases hs) (simp add: handle_search_def home_wf_def)

lemma handle_filter_wf: "filters_ok f \<Longrightarrow> home_wf hs \<Longrightarrow> home_wf (handle_filter f hs)"
  using fetch_posts_wf [of "(fst hs\<lparr>home_filters := f\<rparr>, snd hs)"]
  by (cases hs) (simp add: handle_filter_def home_wf_def)

lemma list_all_remove_nth: "list_all P xs \<Longrightarrow> list_all P (remove_nth i xs)"
  using set_remove_nth_subset by (fastforce simp: list_all_iff)

lemma home_step_wf:
  assumes "home_wf hs" and "home_sys_step hs e = Some hs'"
    and "case e of HSearch _ \<Rightarrow> False | HFilter _ \<Rightarrow> False | _ \<Rightarrow> True"
  shows "home_wf hs'"
proof (cases e)
  case (HFetchDone i r)
  with assms show ?thesis
    by (cases r) (auto simp: home_wf_def list_all_remove_nth dest!: home_step_FetchDone)
next
  case (HMoreDone i r)
  with assms show ?thesis
    by (cases r) (auto simp: home_wf_def list_all_remove_nth dest!: home_step_MoreDone)
next
  case (HDeleteDone i r)
  with assms show ?thesis
    by (cases r) (auto simp: home_wf_def list_all_remove_nth dest!: home_step_DeleteDone)
qed (use assms in \<open>auto simp: home_wf_def load_more_def card_delete_click_def split: if_splits prod.splits\<close>)

lemma sb_handle_filters_ok:
  assumes "filters_ok (sb_filters st)" and "sb_handle st e = Some (st', outs)"
  shows "filters_ok (sb_filters st')"
  using assms
  by (cases e) (auto simp: filters_ok_def handle_filter_change_def clear_filters_def set_search_query_def
      sb_search_effect_def sb_default_filters_def keys_obj_set Let_def split: if_splits)


lemma offer_filter_wf: "page_wf p \<Longrightarrow> offer_filter p = Some p' \<Longrightarrow> page_wf p'"
  by (auto simp: offer_filter_def page_wf_def handle_filter_wf split: option.splits if_splits)

lemma sb_mount_filters_ok: "filters_ok (sb_filters (fst (sb_mount t)))"
  by (simp add: sb_mount_def sb_search_effect_def sb_default_filters_def filters_ok_def)

lemma page_settle_wf: "page_wf p \<Longrightarrow> page_settle n r p = Some p' \<Longrightarrow> page_wf p'"
proof (induction n arbitrary: r p)
  case 0
  then show ?case by simp
next
  case (Suc n)
  show ?case
  proof (cases "bar_shown (fst (hp_home p))")
    case False
    with Suc.prems show ?thesis by (auto simp: page_wf_def)
  next
    case shown: True
    show ?thesis
    proof (cases "hp_bar p")
      case None
      let ?p1 = "p\<lparr>hp_bar := Some (fst (sb_mount (hp_clock p))), hp_bar_obj := hp_objs p,
                   hp_objs := Suc (hp_objs p)\<rparr>"
      have w1: "page_wf ?p1" using Suc.prems(1) sb_mount_filters_ok by (simp add: page_wf_def)
      from Suc.prems(2) shown None have
        "(case offer_filter ?p1 of None \<Rightarrow> Some ?p1 | Some p2 \<Rightarrow> page_settle n True p2) = Some p'"
        by (simp add: Let_def)
      with w1 Suc.IH show ?thesis by (auto dest: offer_filter_wf split: option.splits)
    next
      case (Some st)
      let ?p1 = "p\<lparr>hp_bar := Some (sb_search_effect st)\<rparr>"
      have w1: "page_wf ?p1" using Suc.prems(1) Some by (simp add: page_wf_def sb_search_effect_def)
      show ?thesis
      proof (cases r)
        case False
        with Suc.prems shown Some show ?thesis by simp
      next
        case True
        with Suc.prems(2) shown Some have
          "(case offer_filter ?p1 of None \<Rightarrow> Some ?p1 | Some p2 \<Rightarrow> page_settle n True p2) = Some p'"
          by (simp add: Let_def)
        with w1 Suc.IH show ?thesis by (auto dest: offer_filter_wf split: option.splits)
      qed
    qed
  qed
qed

lemma page_at_wf: "page_wf (page_at t p) = page_wf p"
  by (cases "hp_bar p") (simp_all add: page_at_def page_wf_def)

lemma page_step_wf: "page_wf p \<Longrightarrow> page_step p e = Some p' \<Longrightarrow> page_wf p'"
proof (cases e)
  case (PBar b)
  assume wf: "page_wf p" and step: "page_step p e = Some p'"
  from step PBar obtain st st' outs where bar: "hp_bar p = Some st"
    and h: "sb_handle (st\<lparr>sb_now := sb_event_time b\<rparr>) b = Some (st', outs)"
    by (auto simp: Let_def page_at_def split: option.splits if_splits)
  have ok: "filters_ok (sb_filters st')"
    using sb_handle_filters_ok [OF _ h] wf bar by (simp add: page_wf_def)
  let ?p0 = "page_at (sb_event_time b) p"
  have w0: "page_wf (?p0\<lparr>hp_bar := Some st'\<rparr>)" using wf ok by (simp add: page_wf_def page_at_def)
  have w1: "page_wf (?p0\<lparr>hp_bar := Some st', hp_bar_obj := hp_objs ?p0, hp_objs := Suc (hp_objs ?p0)\<rparr>)"
    using w0 by (simp add: page_wf_def)
  from step PBar bar h w0 w1 show ?thesis
    by (auto simp: Let_def page_at_def dest: offer_filter_wf page_settle_wf split: option.splits if_splits)
next
  case PTimer
  assume wf: "page_wf p" and step: "page_step p e = Some p'"
  from step PTimer obtain st d q where bar: "hp_bar p = Some st" and tm: "sb_timer st = Some (d, q)"
    by (auto split: option.splits)
  let ?p1 = "page_at d (p\<lparr>hp_bar := Some (fst (sb_advance d st))\<rparr>)"
  have w1: "page_wf ?p1"
    using wf bar tm by (simp add: page_wf_def page_at_def sb_advance_def)
  then have w2: "page_wf (?p1\<lparr>hp_home := handle_search q (hp_home ?p1)\<rparr>)"
    by (simp add: page_wf_def handle_search_wf)
  from step PTimer bar tm w1 w2 show ?thesis
    by (auto simp: Let_def dest: page_settle_wf split: if_splits)
next
  case (PHome t h)
  assume wf: "page_wf p" and step: "page_step p e = Some p'"
  from step PHome obtain hs' where hs: "home_sys_step (hp_home p) h = Some hs'"
    and own: "case h of HSearch _ \<Rightarrow> False | HFilter _ \<Rightarrow> False | _ \<Rightarrow> True"
    by (auto simp: Let_def split: option.splits if_splits home_event.splits)
  have "home_wf hs'" using home_step_wf [OF _ hs own] wf by (simp add: page_wf_def)
  then have "page_wf (p\<lparr>hp_home := hs'\<rparr>)" using wf by (simp add: page_wf_def)
  then have w1: "page_wf (page_at t (p\<lparr>hp_home := hs'\<rparr>))" by (simp only: page_at_wf)
  from step PHome hs w1 show ?thesis
    by (auto simp: Let_def dest: page_settle_wf split: if_splits)
qed

lemma page_reach_wf: "page_reach p \<Longrightarrow> page_wf p"
proof (induction rule: page_reach.induct)
  case start
  then show ?case by (simp add: page_wf_def home_wf_def page_start_def feed_unfold)
next
  case (step p e p')
  then show ?case using page_step_wf by blast
qed

lemma page_loaded_reach: "page_reach page_loaded"
proof -
  have "page_step page_start (PHome 10 (HFetchDone 0 (Inr (demo_page [demo_post 1 7] None)))) = Some page_loaded"
    by (simp add: page_loaded_def) (simp add: page_unfold)
  then show ?thesis using page_reach.step [OF page_reach.start] by blast
qed

end
