(* ===== verification/Session.thy ===== *)
theory Session
  imports Api
begin

text \<open>
  The session store: \<open>AuthProvider\<close> of src/blog/src/contexts/AuthContext.jsx. Its
  state is the React state \<open>user\<close> and \<open>loading\<close> together with the two slots of
  \<open>localStorage\<close> it writes; toasts are kept as an output list. Each asynchronous handler
  is split at its \<open>await\<close>: the request it sends, and the continuation that runs when the
  answer arrives (a function of the state at that moment and the answer). The handlers are
  composed into a machine whose events are the user actions the UI allows (App.jsx renders
  nothing but a spinner while \<open>loading\<close>; the login and register routes exist only without
  a user; the logout button and the profile page only with one) and the answers of the
  requests in flight, counted per kind.
\<close>

subsection \<open>State and handlers\<close>

record storage =
  st_access :: "string option"
  st_refresh :: "string option"

text \<open>\<open>localStorage.removeItem\<close> of both slots.\<close>

definition storage_cleared :: "storage \<Rightarrow> storage" where
  "storage_cleared s = s\<lparr>st_access := None, st_refresh := None\<rparr>"

record auth_state =
  auth_user :: "user option"
  auth_loading :: bool
  auth_storage :: storage
  auth_toasts :: "toast list"

text \<open>\<open>useState(null)\<close>, \<open>useState(true)\<close>, and the storage found at start.\<close>

definition auth_provider_init :: "storage \<Rightarrow> auth_state" where
  "auth_provider_init stor =
     \<lparr>auth_user = None, auth_loading = True, auth_storage = stor, auth_toasts = []\<rparr>"

text \<open>The mount effect: \<open>if (token) fetchUserProfile() else setLoading(false)\<close>.\<close>

definition auth_mount :: "auth_state \<Rightarrow> auth_state \<times> api_request list" where
  "auth_mount st =
     (if js_truthy_str (st_access (auth_storage st)) then (st, [ApiGet ''/profile/'' []])
      else (st\<lparr>auth_loading := False\<rparr>, []))"

text \<open>\<open>fetchUserProfile\<close> after its \<open>await api.get('/profile/')\<close>.\<close>

fun fetch_user_profile_done :: "auth_state \<Rightarrow> user api_result \<Rightarrow> auth_state" where
  "fetch_user_profile_done st (Inr u) = st\<lparr>auth_user := Some u, auth_loading := False\<rparr>"
| "fetch_user_profile_done st (Inl e) =
     st\<lparr>auth_storage := storage_cleared (auth_storage st), auth_loading := False\<rparr>"

datatype op_result = OpSuccess | OpFailure string

text \<open>The success branch shared by \<open>login\<close> and \<open>register\<close>.\<close>

definition store_session :: "auth_state \<Rightarrow> auth_payload \<Rightarrow> string \<Rightarrow> auth_state" where
  "store_session st p msg =
     st\<lparr>auth_storage := \<lparr>st_access = Some (ap_access p), st_refresh = Some (ap_refresh p)\<rparr>,
        auth_user := Some (ap_user p),
        auth_toasts := auth_toasts st @ [ToastSuccess msg]\<rparr>"

definition fail_with :: "auth_state \<Rightarrow> string \<Rightarrow> auth_state \<times> op_result" where
  "fail_with st m = (st\<lparr>auth_toasts := auth_toasts st @ [ToastError m]\<rparr>, OpFailure m)"

definition login_request :: "string \<Rightarrow> string \<Rightarrow> api_request" where
  "login_request email password = ApiPost ''/login/'' [(''email'', email), (''password'', password)]"

definition login_error_message :: "api_error \<Rightarrow> string" where
  "login_error_message e =
     js_or_default [js_first (err_field err_non_field_errors e), err_field err_detail e]
       ''Login failed''"

fun login_done :: "auth_state \<Rightarrow> auth_payload api_result \<Rightarrow> auth_state \<times> op_result" where
  "login_done st (Inr p) = (store_session st p ''Login successful!'', OpSuccess)"
| "login_done st (Inl e) = fail_with st (login_error_message e)"

definition register_request :: "(string \<times> string) list \<Rightarrow> api_request" where
  "register_request user_data = ApiPost ''/register/'' user_data"

definition register_error_message :: "api_error \<Rightarrow> string" where
  "register_error_message e =
     js_or_default [js_first (err_field err_email e), js_first (err_field err_password e),
                    js_first (err_field err_non_field_errors e)]
       ''Registration failed''"

fun register_done :: "auth_state \<Rightarrow> auth_payload api_result \<Rightarrow> auth_state \<times> op_result" where
  "register_done st (Inr p) = (store_session st p ''Registration successful!'', OpSuccess)"
| "register_done st (Inl e) = fail_with st (register_error_message e)"

definition logout :: "auth_state \<Rightarrow> auth_state" where
  "logout st =
     st\<lparr>auth_storage := storage_cleared (auth_storage st), auth_user := None,
        auth_toasts := auth_toasts st @ [ToastSuccess ''Logged out successfully!'']\<rparr>"

definition update_profile_request :: "(string \<times> string) list \<Rightarrow> api_request" where
  "update_profile_request profile_data = ApiPut ''/profile/'' profile_data"

definition update_error_message :: "api_error \<Rightarrow> string" where
  "update_error_message e = js_or_default [err_field err_detail e] ''Update failed''"

fun update_profile_done :: "auth_state \<Rightarrow> user api_result \<Rightarrow> auth_state \<times> op_result" where
  "update_profile_done st (Inr u) =
     (st\<lparr>auth_user := Some u,
         auth_toasts := auth_toasts st @ [ToastSuccess ''Profile updated successfully!'']\<rparr>,
      OpSuccess)"
| "update_profile_done st (Inl e) = fail_with st (update_error_message e)"

subsection \<open>The session machine\<close>

text \<open>Requests in flight, counted per kind; an answer completes one of its kind.\<close>

record auth_net =
  pending_profile :: nat
  pending_login :: nat
  pending_register :: nat
  pending_update :: nat

type_synonym auth_sys = "auth_state \<times> auth_net"

datatype auth_event =
    ProfileDone "user api_result"
  | SubmitLogin string string
  | LoginDone "auth_payload api_result"
  | SubmitRegister "(string \<times> string) list"
  | RegisterDone "auth_payload api_result"
  | ClickLogout
  | SubmitProfile "(string \<times> string) list"
  | ProfileUpdateDone "user api_result"

definition auth_start :: "storage \<Rightarrow> auth_sys" where
  "auth_start stor =
     (let (st, reqs) = auth_mount (auth_provider_init stor)
      in (st, \<lparr>pending_profile = length reqs, pending_login = 0, pending_register = 0,
               pending_update = 0\<rparr>))"

text \<open>\<open>None\<close>: the event cannot happen in this state (no such button, no such request).\<close>

fun auth_sys_step :: "auth_sys \<Rightarrow> auth_event \<Rightarrow> auth_sys option" where
  "auth_sys_step (st, n) (ProfileDone r) =
     (if 0 < pending_profile n
      then Some (fetch_user_profile_done st r, n\<lparr>pending_profile := pending_profile n - 1\<rparr>)
      else None)"
| "auth_sys_step (st, n) (SubmitLogin email password) =
     (if \<not> auth_loading st \<and> auth_user st = None
      then Some (st, n\<lparr>pending_login := Suc (pending_login n)\<rparr>) else None)"
| "auth_sys_step (st, n) (LoginDone r) =
     (if 0 < pending_login n
      then Some (fst (login_done st r), n\<lparr>pending_login := pending_login n - 1\<rparr>) else None)"
| "auth_sys_step (st, n) (SubmitRegister d) =
     (if \<not> auth_loading st \<and> auth_user st = None
      then Some (st, n\<lparr>pending_register := Suc (pending_register n)\<rparr>) else None)"
| "auth_sys_step (st, n) (RegisterDone r) =
     (if 0 < pending_register n
      then Some (fst (register_done st r), n\<lparr>pending_register := pending_register n - 1\<rparr>)
      else None)"
| "auth_sys_step (st, n) ClickLogout =
     (if \<not> auth_loading st \<and> auth_user st \<noteq> None then Some (logout st, n) else None)"
| "auth_sys_step (st, n) (SubmitProfile d) =
     (if \<not> auth_loading st \<and> auth_user st \<noteq> None
      then Some (st, n\<lparr>pending_update := Suc (pending_update n)\<rparr>) else None)"
| "auth_sys_step (st, n) (ProfileUpdateDone r) =
     (if 0 < pending_update n
      then Some (fst (update_profile_done st r), n\<lparr>pending_update := pending_update n - 1\<rparr>)
      else None)"

inductive auth_reach :: "auth_sys \<Rightarrow> bool" where
  start: "auth_reach (auth_start stor)"
| step: "auth_reach s \<Longrightarrow> auth_sys_step s e = Some s' \<Longrightarrow> auth_reach s'"

fun auth_run :: "auth_sys \<Rightarrow> auth_event list \<Rightarrow> auth_sys option" where
  "auth_run s [] = Some s"
| "auth_run s (e # es) = (case auth_sys_step s e of None \<Rightarrow> None | Some s' \<Rightarrow> auth_run s' es)"

subsection \<open>The status the specification speaks of\<close>

datatype session_status = Unauthenticated | Restoring | Authenticated | Expired

definition auth_status :: "auth_state \<Rightarrow> session_status" where
  "auth_status st =
     (if auth_loading st then Restoring
      else if auth_user st \<noteq> None then Authenticated else Unauthenticated)"

text \<open>
  The session of section 3 of the specification: its status, the identity and the
  credential pair. \<open>session_abs\<close> reads it off the provider's state, the
  credentials being those of localStorage.
\<close>

record spec_session =
  ss_status :: session_status
  ss_identity :: "user option"
  ss_access :: "string option"
  ss_refresh :: "string option"

definition session_abs :: "auth_state \<Rightarrow> spec_session" where
  "session_abs st =
     \<lparr>ss_status = auth_status st, ss_identity = auth_user st,
      ss_access = st_access (auth_storage st), ss_refresh = st_refresh (auth_storage st)\<rparr>"

text \<open>
  The operations of the Session Store (section 4.1), each with the outcome of its remote
  call: \<open>restore\<close>, \<open>login\<close>, \<open>register\<close>, \<open>logout\<close>, \<open>updateIdentity\<close>, and
  the operations that change no session state.
\<close>

datatype spec_op =
    SRestore "user api_result"
  | SLogin "auth_payload api_result"
  | SRegister "auth_payload api_result"
  | SLogout
  | SUpdate "user api_result"
  | SNoOp

definition spec_signed_out :: spec_session where
  "spec_signed_out = \<lparr>ss_status = Unauthenticated, ss_identity = None, ss_access = None, ss_refresh = None\<rparr>"

definition spec_signed_in :: "auth_payload \<Rightarrow> spec_session" where
  "spec_signed_in p =
     \<lparr>ss_status = Authenticated, ss_identity = Some (ap_user p),
      ss_access = Some (ap_access p), ss_refresh = Some (ap_refresh p)\<rparr>"

text \<open>
  What each operation does to the session, \<open>None\<close> outside its precondition:
  restore runs while Restoring and ends Authenticated with the identity (credentials kept)
  or Unauthenticated with the credentials purged; login and register (not while restoring)
  store identity and tokens on success and change nothing on failure; logout clears
  everything; an update replaces the identity of an Authenticated session on success and
  changes nothing on failure.
\<close>

fun spec_session_op :: "spec_op \<Rightarrow> spec_session \<Rightarrow> spec_session option" where
  "spec_session_op (SRestore (Inr u)) s =
     (if ss_status s = Restoring then Some (s\<lparr>ss_status := Authenticated, ss_identity := Some u\<rparr>) else None)"
| "spec_session_op (SRestore (Inl e)) s = (if ss_status s = Restoring then Some spec_signed_out else None)"
| "spec_session_op (SLogin (Inr p)) s = (if ss_status s = Restoring then None else Some (spec_signed_in p))"
| "spec_session_op (SLogin (Inl e)) s = (if ss_status s = Restoring then None else Some s)"
| "spec_session_op (SRegister (Inr p)) s = (if ss_status s = Restoring then None else Some (spec_signed_in p))"
| "spec_session_op (SRegister (Inl e)) s = (if ss_status s = Restoring then None else Some s)"
| "spec_session_op SLogout s = (if ss_status s = Restoring then None else Some spec_signed_out)"
| "spec_session_op (SUpdate (Inr u)) s =
     (if ss_status s = Authenticated then Some (s\<lparr>ss_identity := Some u\<rparr>) else None)"
| "spec_session_op (SUpdate (Inl e)) s = Some s"
| "spec_session_op SNoOp s = Some s"

text \<open>The operation each event of the provider performs.\<close>

fun session_op_of :: "auth_event \<Rightarrow> spec_op" where
  "session_op_of (ProfileDone r) = SRestore r"
| "session_op_of (LoginDone r) = SLogin r"
| "session_op_of (RegisterDone r) = SRegister r"
| "session_op_of ClickLogout = SLogout"
| "session_op_of (ProfileUpdateDone r) = SUpdate r"
| "session_op_of _ = SNoOp"

text \<open>
  A profile update answered after the user logged out: the answer was requested while
  signed in, its continuation runs in a signed-out state. This is the one step the
  properties below have to set apart.
\<close>

fun stale_update :: "auth_sys \<Rightarrow> auth_event \<Rightarrow> bool" where
  "stale_update (st, n) (ProfileUpdateDone (Inr u)) = (auth_user st = None)"
| "stale_update _ _ = False"

text \<open>While a user is signed in, an access token is stored (the interceptor's credential).\<close>

definition tokens_match :: "auth_state \<Rightarrow> bool" where
  "tokens_match st \<longleftrightarrow> (auth_user st \<noteq> None \<longrightarrow> st_access (auth_storage st) \<noteq> None)"

text \<open>
  The restoring phase: \<open>loading\<close> holds exactly while the profile request of the
  mount effect is in flight, and nothing else can be in flight or signed in then.
\<close>

fun auth_inv :: "auth_sys \<Rightarrow> bool" where
  "auth_inv (st, n) \<longleftrightarrow>
     pending_profile n \<le> 1 \<and> (auth_loading st \<longleftrightarrow> pending_profile n = 1) \<and>
     (auth_loading st \<longrightarrow> auth_user st = None \<and> st_access (auth_storage st) \<noteq> None \<and>
        pending_login n = 0 \<and> pending_register n = 0 \<and> pending_update n = 0)"

definition demo_user :: user where
  "demo_user = \<lparr>user_id = 1, user_username = ''ann'', user_email = ''ann@example.org'',
     user_bio = [], user_profile_picture = None, user_posts_count = 0\<rparr>"

definition demo_storage :: storage where
  "demo_storage = \<lparr>st_access = Some ''tok'', st_refresh = Some ''ref''\<rparr>"

subsection \<open>Lemmas\<close>


lemma auth_handlers_keep_loading [state_simps]:
  "auth_loading (fst (login_done st p)) = auth_loading st"
  "auth_loading (fst (register_done st p)) = auth_loading st"
  "auth_loading (fst (update_profile_done st u)) = auth_loading st"
  "auth_loading (logout st) = auth_loading st"
  by (cases p; cases u; simp add: store_session_def fail_with_def logout_def)+

lemma fetch_user_profile_done_loading [state_simps]:
  "auth_loading (fetch_user_profile_done st r) = False"
  by (cases r) simp_all

lemma auth_inv_start: "auth_inv (auth_start stor)"
  by (cases "st_access stor") (auto simp: auth_start_def auth_mount_def auth_provider_init_def)

lemma auth_inv_step: "auth_inv s \<Longrightarrow> auth_sys_step s e = Some s' \<Longrightarrow> auth_inv s'"
  by (cases s; cases e) (auto simp: state_simps split: if_splits)

lemma auth_reach_inv: "auth_reach s \<Longrightarrow> auth_inv s"
proof (induction rule: auth_reach.induct)
  case (start stor)
  show ?case by (rule auth_inv_start)
next
  case (step s e s')
  then show ?case by (blast intro: auth_inv_step)
qed

lemma auth_run_reach: "auth_reach s \<Longrightarrow> auth_run s es = Some s' \<Longrightarrow> auth_reach s'"
proof (induction es arbitrary: s)
  case Nil
  then show ?case by simp
next
  case (Cons e es)
  then show ?case by (auto intro: auth_reach.step split: option.splits)
qed

lemmas session_unfold = auth_start_def auth_mount_def auth_provider_init_def demo_storage_def
  logout_def storage_cleared_def auth_status_def store_session_def fail_with_def

text \<open>
  C10. Restoring with a persisted token that the profile request rejects ends signed out,
  with both storage slots cleared and no request left in flight (section 8).
\<close>

theorem restore_rejected:
  assumes "js_truthy_str (st_access stor)"
    and "auth_run (auth_start stor) [ProfileDone (Inl err)] = Some (st, n)"
  shows "auth_status st = Unauthenticated \<and> auth_storage st = storage_cleared stor
    \<and> pending_profile n = 0"
  using assms by (auto simp: auth_start_def auth_mount_def auth_provider_init_def auth_status_def)

theorem restore_rejected_witness:
  "js_truthy_str (st_access demo_storage) \<and>
   auth_run (auth_start demo_storage) [ProfileDone (Inl NetworkError)] =
     Some (fst (the (auth_run (auth_start demo_storage) [ProfileDone (Inl NetworkError)])),
           snd (the (auth_run (auth_start demo_storage) [ProfileDone (Inl NetworkError)]))) \<and>
   auth_status (fst (the (auth_run (auth_start demo_storage) [ProfileDone (Inl NetworkError)])))
     = Unauthenticated"
proof -
  have h: "js_truthy_str (st_access demo_storage)" by (simp add: demo_storage_def)
  have r: "auth_run (auth_start demo_storage) [ProfileDone (Inl NetworkError)] =
     Some (fst (the (auth_run (auth_start demo_storage) [ProfileDone (Inl NetworkError)])),
           snd (the (auth_run (auth_start demo_storage) [ProfileDone (Inl NetworkError)])))"
    by (simp add: session_unfold)
  show ?thesis using h r restore_rejected [OF h r] by blast
qed

text \<open>
  C11. The provider implements the Session Store of the specification: for every event the
  UI allows, except a profile update answered after logout, the step changes the session
  (status, identity, both stored tokens) exactly as the operation it performs does in
  section 4.1, within that operation's precondition.
\<close>

theorem session_refines_spec:
  assumes "auth_reach s" and "auth_sys_step s e = Some s'" and "\<not> stale_update s e"
  shows "spec_session_op (session_op_of e) (session_abs (fst s)) = Some (session_abs (fst s'))"
proof -
  obtain st n where s: "s = (st, n)" by fastforce
  from assms(1) have inv: "auth_inv s" by (rule auth_reach_inv)
  show ?thesis
  proof (cases e)
    case (ProfileDone r)
    with assms(2) inv s show ?thesis
      by (cases r) (auto simp: session_abs_def auth_status_def spec_signed_out_def storage_cleared_def
          split: if_splits)
  next
    case (LoginDone r)
    with assms(2) inv s show ?thesis
      by (cases r) (auto simp: session_abs_def auth_status_def spec_signed_in_def session_unfold
          split: if_splits)
  next
    case (RegisterDone r)
    with assms(2) inv s show ?thesis
      by (cases r) (auto simp: session_abs_def auth_status_def spec_signed_in_def session_unfold
          split: if_splits)
  next
    case (ProfileUpdateDone r)
    with assms(2,3) inv s show ?thesis
      by (cases r) (auto simp: session_abs_def auth_status_def session_unfold split: if_splits)
  next
    case ClickLogout
    with assms(2) inv s show ?thesis
      by (auto simp: session_abs_def auth_status_def spec_signed_out_def session_unfold split: if_splits)
  qed (use assms(2) s in \<open>auto split: if_splits\<close>)
qed

theorem session_refines_spec_witness:
  "auth_reach (auth_start demo_storage) \<and>
   auth_sys_step (auth_start demo_storage) (ProfileDone (Inr demo_user)) =
     Some (the (auth_sys_step (auth_start demo_storage) (ProfileDone (Inr demo_user)))) \<and>
   \<not> stale_update (auth_start demo_storage) (ProfileDone (Inr demo_user)) \<and>
   spec_session_op (SRestore (Inr demo_user)) (session_abs (fst (auth_start demo_storage))) =
     Some (session_abs (fst (the (auth_sys_step (auth_start demo_storage) (ProfileDone (Inr demo_user))))))"
proof -
  have r: "auth_reach (auth_start demo_storage)" by (rule auth_reach.start)
  have e: "auth_sys_step (auth_start demo_storage) (ProfileDone (Inr demo_user)) =
     Some (the (auth_sys_step (auth_start demo_storage) (ProfileDone (Inr demo_user))))"
    by (simp add: session_unfold)
  have n: "\<not> stale_update (auth_start demo_storage) (ProfileDone (Inr demo_user))"
    by (simp add: session_unfold)
  show ?thesis using r e n session_refines_spec [OF r e n] by simp
qed

text \<open>
  Every step the UI allows, other than a profile update answered after logout, keeps
  an access token stored while a user is signed in.
\<close>

theorem session_step_tokens:
  assumes "auth_reach s" and "tokens_match (fst s)"
    and "auth_sys_step s e = Some s'" and "\<not> stale_update s e"
  shows "tokens_match (fst s')"
proof -
  obtain st n where s: "s = (st, n)" by fastforce
  from assms(1) have inv: "auth_inv s" by (rule auth_reach_inv)
  show ?thesis
  proof (cases e)
    case (ProfileDone r)
    with assms(3) inv s show ?thesis
      by (cases r) (auto simp: tokens_match_def storage_cleared_def split: if_splits)
  next
    case (LoginDone r)
    with assms(2,3) s show ?thesis
      by (cases r) (auto simp: tokens_match_def session_unfold split: if_splits)
  next
    case (RegisterDone r)
    with assms(2,3) s show ?thesis
      by (cases r) (auto simp: tokens_match_def session_unfold split: if_splits)
  next
    case (ProfileUpdateDone r)
    with assms(2,3,4) s show ?thesis
      by (cases r) (auto simp: tokens_match_def fail_with_def split: if_splits)
  qed (use assms(2,3) s in \<open>auto simp: tokens_match_def session_unfold split: if_splits\<close>)
qed

theorem session_step_tokens_witness:
  "auth_reach (the (auth_run (auth_start demo_storage) [ProfileDone (Inr demo_user)])) \<and>
   tokens_match (fst (the (auth_run (auth_start demo_storage) [ProfileDone (Inr demo_user)]))) \<and>
   auth_sys_step (the (auth_run (auth_start demo_storage) [ProfileDone (Inr demo_user)])) ClickLogout =
     Some (the (auth_run (auth_start demo_storage) [ProfileDone (Inr demo_user), ClickLogout])) \<and>
   \<not> stale_update (the (auth_run (auth_start demo_storage) [ProfileDone (Inr demo_user)])) ClickLogout \<and>
   tokens_match (fst (the (auth_run (auth_start demo_storage) [ProfileDone (Inr demo_user), ClickLogout])))"
proof -
  let ?s = "the (auth_run (auth_start demo_storage) [ProfileDone (Inr demo_user)])"
  let ?s' = "the (auth_run (auth_start demo_storage) [ProfileDone (Inr demo_user), ClickLogout])"
  have run: "auth_run (auth_start demo_storage) [ProfileDone (Inr demo_user)] = Some ?s"
    by (simp add: session_unfold)
  have r: "auth_reach ?s" using auth_reach.start run by (rule auth_run_reach)
  have t: "tokens_match (fst ?s)" by (simp add: session_unfold tokens_match_def)
  have e: "auth_sys_step ?s ClickLogout = Some ?s'" by (simp add: session_unfold)
  have n: "\<not> stale_update ?s ClickLogout" by (cases ?s) simp
  show ?thesis using r t e n session_step_tokens [OF r t e n] by blast
qed

text \<open>
  C12. The exception is real: a profile update sent while signed in and answered after
  logout signs the user in again with no token stored, a status change the
  specification's state machine has no transition for.
\<close>

theorem profile_update_after_logout:
  "\<exists>s. auth_run (auth_start demo_storage)
          [ProfileDone (Inr demo_user), SubmitProfile [(''bio'', ''hi'')], ClickLogout,
           ProfileUpdateDone (Inr demo_user)] = Some s
     \<and> auth_reach s \<and> auth_status (fst s) = Authenticated
     \<and> st_access (auth_storage (fst s)) = None"
proof -
  let ?es = "[ProfileDone (Inr demo_user), SubmitProfile [(''bio'', ''hi'')], ClickLogout,
           ProfileUpdateDone (Inr demo_user)]"
  obtain s where run: "auth_run (auth_start demo_storage) ?es = Some s"
    and st: "auth_status (fst s) = Authenticated \<and> st_access (auth_storage (fst s)) = None"
    by (simp add: session_unfold)
  have "auth_reach s" using auth_reach.start run by (rule auth_run_reach)
  with run st show ?thesis by blast
qed

end
