(* ===== verification/ProfilePage.thy ===== *)
theory ProfilePage
  imports Session
begin

text \<open>
  The profile page, src/blog/src/pages/Profile.jsx, over the session of AuthContext.jsx.
  Its state is \<open>isEditing\<close>, the form (\<open>username\<close>, \<open>bio\<close>) and
  \<open>loading\<close>; \<open>handleSubmit\<close> awaits the session's \<open>updateProfile\<close>, so
  the page's step for the save drives the session machine (\<open>SubmitProfile\<close>,
  \<open>ProfileUpdateDone\<close>) and continues with the result the session's handler returns.
  The page exists only while a user is signed in (\<open>if (!user) return null\<close>).
\<close>

subsection \<open>State and handlers\<close>

record profile_state =
  pf_editing :: bool
  pf_form :: "(string \<times> string) list"
  pf_loading :: bool

text \<open>\<open>{username: user?.username || '', bio: user?.bio || ''}\<close>\<close>

definition profile_form_of :: "user option \<Rightarrow> (string \<times> string) list" where
  "profile_form_of u =
     [(''username'', js_or_default [map_option user_username u] []),
      (''bio'', js_or_default [map_option user_bio u] [])]"

definition profile_init :: "user option \<Rightarrow> profile_state" where
  "profile_init u = \<lparr>pf_editing = False, pf_form = profile_form_of u, pf_loading = False\<rparr>"

text \<open>\<open>handleChange\<close>: \<open>setFormData({...formData, [name]: value})\<close>.\<close>

definition profile_change :: "string \<Rightarrow> string \<Rightarrow> profile_state \<Rightarrow> profile_state" where
  "profile_change k v ps = ps\<lparr>pf_form := obj_set k v (pf_form ps)\<rparr>"

text \<open>\<open>handleSubmit\<close> after \<open>await updateProfile(formData)\<close>.\<close>

fun profile_submit_done :: "profile_state \<Rightarrow> op_result \<Rightarrow> profile_state" where
  "profile_submit_done ps OpSuccess = ps\<lparr>pf_editing := False, pf_loading := False\<rparr>"
| "profile_submit_done ps (OpFailure m) = ps\<lparr>pf_loading := False\<rparr>"

text \<open>\<open>handleCancel\<close>: the form is reset from the current user and editing ends.\<close>

definition profile_cancel :: "user option \<Rightarrow> profile_state \<Rightarrow> profile_state" where
  "profile_cancel u ps = ps\<lparr>pf_form := profile_form_of u, pf_editing := False\<rparr>"

text \<open>
  The save button exists while editing, is \<open>disabled={loading}\<close>, and the browser
  refuses to submit a form whose \<open>required\<close> username is empty.
\<close>

definition profile_submit_enabled :: "profile_state \<Rightarrow> bool" where
  "profile_submit_enabled ps \<longleftrightarrow>
     pf_editing ps \<and> \<not> pf_loading ps \<and> map_of (pf_form ps) ''username'' \<noteq> Some []"

subsection \<open>The page over the session\<close>

type_synonym profile_sys = "profile_state \<times> auth_sys"

datatype profile_event =
    PfEdit
  | PfChange string string
  | PfSubmit
  | PfCancel
  | PfSaved "user api_result"
  | PfSession auth_event

fun page_own_auth_event :: "auth_event \<Rightarrow> bool" where
  "page_own_auth_event (SubmitProfile _) = True"
| "page_own_auth_event (ProfileUpdateDone _) = True"
| "page_own_auth_event _ = False"

text \<open>
  The page's controls exist while a user is signed in; the answer of the save continues
  \<open>handleSubmit\<close> whatever the page shows; other session events (the navigation bar's
  logout) go to the session alone.
\<close>

fun profile_step :: "profile_sys \<Rightarrow> profile_event \<Rightarrow> profile_sys option" where
  "profile_step (ps, a) PfEdit =
     (if auth_user (fst a) \<noteq> None \<and> \<not> pf_editing ps then Some (ps\<lparr>pf_editing := True\<rparr>, a) else None)"
| "profile_step (ps, a) (PfChange k v) =
     (if auth_user (fst a) \<noteq> None \<and> pf_editing ps \<and> k \<in> {''username'', ''bio''}
      then Some (profile_change k v ps, a) else None)"
| "profile_step (ps, a) PfSubmit =
     (if auth_user (fst a) \<noteq> None \<and> profile_submit_enabled ps
      then map_option (\<lambda>a'. (ps\<lparr>pf_loading := True\<rparr>, a')) (auth_sys_step a (SubmitProfile (pf_form ps)))
      else None)"
| "profile_step (ps, a) PfCancel =
     (if auth_user (fst a) \<noteq> None \<and> pf_editing ps
      then Some (profile_cancel (auth_user (fst a)) ps, a) else None)"
| "profile_step (ps, a) (PfSaved r) =
     map_option (\<lambda>a'. (profile_submit_done ps (snd (update_profile_done (fst a) r)), a'))
       (auth_sys_step a (ProfileUpdateDone r))"
| "profile_step (ps, a) (PfSession e) =
     (if page_own_auth_event e then None else map_option (\<lambda>a'. (ps, a')) (auth_sys_step a e))"

text \<open>The page mounts over a session with no profile update in flight.\<close>

inductive profile_reach :: "profile_sys \<Rightarrow> bool" where
  start: "pending_update (snd a) = 0 \<Longrightarrow> profile_reach (profile_init (auth_user (fst a)), a)"
| step: "profile_reach s \<Longrightarrow> profile_step s e = Some s' \<Longrightarrow> profile_reach s'"

fun profile_run :: "profile_sys \<Rightarrow> profile_event list \<Rightarrow> profile_sys option" where
  "profile_run s [] = Some s"
| "profile_run s (e # es) = (case profile_step s e of None \<Rightarrow> None | Some s' \<Rightarrow> profile_run s' es)"

text \<open>A signed-in session: the restore of \<open>demo_storage\<close> answered with \<open>demo_user\<close>.\<close>

definition profile_demo_start :: profile_sys where
  "profile_demo_start =
     (let a = the (auth_run (auth_start demo_storage) [ProfileDone (Inr demo_user)])
      in (profile_init (auth_user (fst a)), a))"

subsection \<open>Lemmas\<close>

lemma auth_step_pending_update:
  "auth_sys_step a e = Some a' \<Longrightarrow> \<not> page_own_auth_event e \<Longrightarrow> pending_update (snd a') = pending_update (snd a)"
  by (cases a; cases e) (auto split: if_splits)

lemma profile_run_reach: "profile_reach s \<Longrightarrow> profile_run s es = Some s' \<Longrightarrow> profile_reach s'"
proof (induction es arbitrary: s)
  case Nil
  then show ?case by simp
next
  case (Cons e es)
  then obtain s1 where "profile_step s e = Some s1" and "profile_run s1 es = Some s'"
    by (auto split: option.splits)
  with Cons show ?case by (blast intro: profile_reach.step)
qed

lemma profile_demo_start_reach: "profile_reach profile_demo_start"
  unfolding profile_demo_start_def Let_def
  by (rule profile_reach.start) (simp add: session_unfold)

lemmas profile_unfold = profile_demo_start_def profile_init_def profile_form_of_def
  profile_submit_enabled_def profile_change_def profile_cancel_def session_unfold demo_user_def

lemma profile_save_result:
  assumes "profile_step (ps, a) (PfSaved r) = Some (ps', a')"
  shows "\<not> pf_loading ps' \<and> pf_form ps' = pf_form ps \<and>
         (case r of
            Inr u \<Rightarrow> \<not> pf_editing ps' \<and> auth_user (fst a') = Some u
          | Inl e \<Rightarrow> pf_editing ps' = pf_editing ps \<and> auth_user (fst a') = auth_user (fst a))"
  using assms
  by (cases a; cases r) (auto simp: fail_with_def split: if_splits)

text \<open>
  C23. Cancel does not stop a save in flight, and leaves the form stale: the user edits the
  username, saves, and cancels while the request is out; the save still lands and signs
  the new name in, but the form was reset to the old name, so the next edit starts from it
  and saving again sends the old name back.
\<close>

theorem cancel_during_save_reverts:
  "\<exists>s. profile_run profile_demo_start
        [PfEdit, PfChange ''username'' ''bob'', PfSubmit, PfCancel,
         PfSaved (Inr (demo_user\<lparr>user_username := ''bob''\<rparr>)), PfEdit, PfSubmit] = Some s
     \<and> map_option user_username (auth_user (fst (snd s))) = Some ''bob''
     \<and> map_of (pf_form (fst s)) ''username'' = Some ''ann''
     \<and> pending_update (snd (snd s)) = 1"
  by (simp add: profile_unfold)

text \<open>
  The profile page has at most one save in flight, and its loading flag is set exactly while
  one is (the save button is disabled while loading; cancel and edit do not touch it).
\<close>

theorem profile_single_save:
  assumes "profile_reach s"
  shows "pending_update (snd (snd s)) \<le> 1 \<and> (pf_loading (fst s) \<longleftrightarrow> pending_update (snd (snd s)) = 1)"
  using assms
proof induction
  case (start a)
  then show ?case by (simp add: profile_init_def)
next
  case (step s e s')
  obtain ps a where s: "s = (ps, a)" by (rule prod.exhaust)
  show ?case
  proof (cases e)
    case (PfSession ae)
    with step s show ?thesis
      by (auto dest: auth_step_pending_update split: if_splits)
  next
    case PfSubmit
    with step s show ?thesis
      by (cases a) (auto simp: profile_submit_enabled_def split: if_splits)
  next
    case (PfSaved r)
    with step s show ?thesis
      by (cases a; cases r) (auto simp: fail_with_def split: if_splits)
  qed (use step s in \<open>auto simp: profile_change_def profile_cancel_def split: if_splits\<close>)
qed

subsection \<open>Witnesses\<close>

lemma profile_save_result_witness:
  "\<exists>ps' a'. profile_step (the (profile_run profile_demo_start [PfEdit, PfSubmit])) (PfSaved (Inr demo_user))
      = Some (ps', a') \<and> \<not> pf_editing ps' \<and> auth_user (fst a') = Some demo_user"
proof -
  obtain ps a where s: "the (profile_run profile_demo_start [PfEdit, PfSubmit]) = (ps, a)"
    by (rule prod.exhaust)
  obtain ps' a' where step: "profile_step (ps, a) (PfSaved (Inr demo_user)) = Some (ps', a')"
    using s by (auto simp: profile_unfold)
  from profile_save_result [OF step] have "\<not> pf_editing ps' \<and> auth_user (fst a') = Some demo_user"
    by simp
  with s step show ?thesis by auto
qed

theorem profile_single_save_witness:
  "\<exists>s. profile_run profile_demo_start [PfEdit, PfSubmit] = Some s \<and> profile_reach s
     \<and> pf_loading (fst s) \<and> pending_update (snd (snd s)) = 1"
proof -
  obtain s where run: "profile_run profile_demo_start [PfEdit, PfSubmit] = Some s" and l: "pf_loading (fst s)"
    by (simp add: profile_unfold)
  have reach: "profile_reach s" using profile_run_reach [OF profile_demo_start_reach run] .
  with l profile_single_save [OF reach] run show ?thesis by auto
qed

end
