(* ===== verification/Composer.thy ===== *)
theory Composer
  imports Api
begin

text \<open>
  The post composer, src/blog/src/pages/CreatePost.jsx. Its state is the form
  (\<open>title\<close>, \<open>caption\<close>, \<open>image\<close>), the image preview and \<open>loading\<close>;
  the toasts and the navigation it triggers are recorded. Two kinds of work run
  asynchronously: a \<open>FileReader\<close> started for each picked file, whose
  \<open>onloadend\<close> sets the preview, and the create request of \<open>handleSubmit\<close>.
  Both are requests in flight, finished in any order. A file is named by a number; the
  preview holds the file whose data URL it shows.
\<close>

subsection \<open>State and handlers\<close>

type_synonym file_id = nat

record post_form =
  pfm_title :: string
  pfm_caption :: string
  pfm_image :: "file_id option"

record composer_state =
  cp_form :: post_form
  cp_preview :: "file_id option"
  cp_loading :: bool
  cp_toasts :: "toast list"
  cp_nav :: "string option"

datatype form_value = FormText string | FormFile file_id

datatype composer_req = ReadReq file_id | CreateReq "(string \<times> form_value) list"

type_synonym composer_sys = "composer_state \<times> composer_req list"

definition composer_init :: composer_state where
  "composer_init =
     \<lparr>cp_form = \<lparr>pfm_title = [], pfm_caption = [], pfm_image = None\<rparr>, cp_preview = None,
      cp_loading = False, cp_toasts = [], cp_nav = None\<rparr>"

text \<open>\<open>handleChange\<close> for the text inputs: \<open>{...formData, [name]: value}\<close>.\<close>

definition composer_change :: "string \<Rightarrow> string \<Rightarrow> post_form \<Rightarrow> post_form" where
  "composer_change k v f =
     (if k = ''title'' then f\<lparr>pfm_title := v\<rparr>
      else if k = ''caption'' then f\<lparr>pfm_caption := v\<rparr> else f)"

text \<open>
  \<open>handleChange\<close> for the file input: the form takes \<open>files[0]\<close>; a file starts a
  reader, no file clears the preview at once.
\<close>

definition composer_pick :: "file_id option \<Rightarrow> composer_sys \<Rightarrow> composer_sys" where
  "composer_pick f s =
     (let (st, rs) = s; st1 = st\<lparr>cp_form := (cp_form st)\<lparr>pfm_image := f\<rparr>\<rparr> in
      case f of
        Some file \<Rightarrow> (st1, rs @ [ReadReq file])
      | None \<Rightarrow> (st1\<lparr>cp_preview := None\<rparr>, rs))"

text \<open>\<open>reader.onloadend\<close>: \<open>setImagePreview(reader.result)\<close>.\<close>

definition reader_done :: "file_id \<Rightarrow> composer_state \<Rightarrow> composer_state" where
  "reader_done file st = st\<lparr>cp_preview := Some file\<rparr>"

text \<open>The \<open>FormData\<close> of \<open>handleSubmit\<close>: title, caption, and the image if one is set.\<close>

definition create_request_of :: "post_form \<Rightarrow> (string \<times> form_value) list" where
  "create_request_of f =
     [(''title'', FormText (pfm_title f)), (''caption'', FormText (pfm_caption f))] @
     (case pfm_image f of Some file \<Rightarrow> [(''image'', FormFile file)] | None \<Rightarrow> [])"

text \<open>\<open>handleSubmit\<close> up to its \<open>await\<close>: \<open>setLoading(true)\<close>, then the request.\<close>

definition composer_submit :: "composer_sys \<Rightarrow> composer_sys" where
  "composer_submit s =
     (let (st, rs) = s in (st\<lparr>cp_loading := True\<rparr>, rs @ [CreateReq (create_request_of (cp_form st))]))"

definition create_error_message :: "api_error \<Rightarrow> string" where
  "create_error_message e = js_or_default [err_field err_detail e] ''Failed to create post''"

text \<open>\<open>handleSubmit\<close> after its \<open>await\<close>: the \<open>try\<close>, \<open>catch\<close> and \<open>finally\<close>.\<close>

fun composer_done :: "composer_state \<Rightarrow> unit api_result \<Rightarrow> composer_state" where
  "composer_done st (Inr _) =
     st\<lparr>cp_toasts := cp_toasts st @ [ToastSuccess ''Post created successfully!''], cp_nav := Some ''/'',
        cp_loading := False\<rparr>"
| "composer_done st (Inl e) =
     st\<lparr>cp_toasts := cp_toasts st @ [ToastError (create_error_message e)], cp_loading := False\<rparr>"

text \<open>
  The publish button: \<open>disabled={loading || !title.trim() || !caption.trim()}\<close>.
\<close>

definition composer_submit_enabled :: "composer_state \<Rightarrow> bool" where
  "composer_submit_enabled st \<longleftrightarrow>
     \<not> cp_loading st \<and> js_trim (pfm_title (cp_form st)) \<noteq> [] \<and> js_trim (pfm_caption (cp_form st)) \<noteq> []"

subsection \<open>The composer machine\<close>

datatype composer_event =
    CChange string string
  | CPick "file_id option"
  | CReadDone nat
  | CSubmit
  | CCreateDone nat "unit api_result"
  | CCancel

text \<open>
  The controls exist until the page navigates away; a reader or a request in flight
  finishes whatever the page shows.
\<close>

fun composer_step :: "composer_sys \<Rightarrow> composer_event \<Rightarrow> composer_sys option" where
  "composer_step (st, rs) (CChange k v) =
     (if cp_nav st = None \<and> k \<in> {''title'', ''caption''}
      then Some (st\<lparr>cp_form := composer_change k v (cp_form st)\<rparr>, rs) else None)"
| "composer_step (st, rs) (CPick f) =
     (if cp_nav st = None then Some (composer_pick f (st, rs)) else None)"
| "composer_step (st, rs) (CReadDone i) =
     (case nth_opt rs i of
        Some (ReadReq file) \<Rightarrow> Some (reader_done file st, remove_nth i rs)
      | _ \<Rightarrow> None)"
| "composer_step (st, rs) CSubmit =
     (if cp_nav st = None \<and> composer_submit_enabled st then Some (composer_submit (st, rs)) else None)"
| "composer_step (st, rs) (CCreateDone i r) =
     (case nth_opt rs i of
        Some (CreateReq q) \<Rightarrow> Some (composer_done st r, remove_nth i rs)
      | _ \<Rightarrow> None)"
| "composer_step (st, rs) CCancel =
     (if cp_nav st = None then Some (st\<lparr>cp_nav := Some ''/''\<rparr>, rs) else None)"

inductive composer_reach :: "composer_sys \<Rightarrow> bool" where
  start: "composer_reach (composer_init, [])"
| step: "composer_reach s \<Longrightarrow> composer_step s e = Some s' \<Longrightarrow> composer_reach s'"

fun composer_run :: "composer_sys \<Rightarrow> composer_event list \<Rightarrow> composer_sys option" where
  "composer_run s [] = Some s"
| "composer_run s (e # es) = (case composer_step s e of None \<Rightarrow> None | Some s' \<Rightarrow> composer_run s' es)"

text \<open>The create requests in flight.\<close>

definition creates_in_flight :: "composer_req list \<Rightarrow> nat" where
  "creates_in_flight rs = length (filter (\<lambda>r. case r of CreateReq _ \<Rightarrow> True | _ \<Rightarrow> False) rs)"

text \<open>A filled form: title, caption and a picked image, as a user would enter them.\<close>

definition composer_events :: "composer_event list" where
  "composer_events = [CChange ''title'' ''Hi'', CChange ''caption'' ''There'', CPick (Some 3)]"

definition composer_filled :: composer_state where
  "composer_filled = composer_init\<lparr>cp_form := \<lparr>pfm_title = ''Hi'', pfm_caption = ''There'', pfm_image = Some 3\<rparr>\<rparr>"

subsection \<open>Lemmas\<close>

lemma creates_in_flight_append [simp]:
  "creates_in_flight (rs @ [r]) = creates_in_flight rs + (case r of CreateReq _ \<Rightarrow> 1 | _ \<Rightarrow> 0)"
  by (cases r) (simp_all add: creates_in_flight_def)

lemma creates_in_flight_remove:
  assumes "nth_opt rs i = Some r"
  shows "creates_in_flight rs = creates_in_flight (remove_nth i rs) + (case r of CreateReq _ \<Rightarrow> 1 | _ \<Rightarrow> 0)"
proof -
  from assms have i: "i < length rs" and r: "rs ! i = r" by (simp_all add: nth_opt_Some)
  have "rs = take i rs @ r # drop (Suc i) rs" using id_take_nth_drop [OF i] r by simp
  then have "creates_in_flight rs = creates_in_flight (take i rs @ r # drop (Suc i) rs)" by simp
  then show ?thesis by (cases r) (simp_all add: creates_in_flight_def remove_nth_eq)
qed

lemma composer_run_reach: "composer_reach s \<Longrightarrow> composer_run s es = Some s' \<Longrightarrow> composer_reach s'"
proof (induction es arbitrary: s)
  case Nil
  then show ?case by simp
next
  case (Cons e es)
  then obtain s1 where "composer_step s e = Some s1" and "composer_run s1 es = Some s'"
    by (auto split: option.splits)
  with Cons show ?case by (blast intro: composer_reach.step)
qed

lemmas composer_unfold = composer_init_def composer_change_def composer_pick_def reader_done_def
  composer_submit_def composer_submit_enabled_def create_request_of_def nth_opt_def remove_nth_eq
  js_trim_def js_is_space_def

text \<open>
  C24. The composer has at most one create request in flight, and its loading flag is set exactly
  while one is: the publish button is disabled while loading, and every answer clears it.
\<close>

theorem composer_single_submit:
  assumes "composer_reach s"
  shows "creates_in_flight (snd s) \<le> 1 \<and> (cp_loading (fst s) \<longleftrightarrow> creates_in_flight (snd s) = 1)"
  using assms
proof induction
  case start
  then show ?case by (simp add: composer_init_def creates_in_flight_def)
next
  case (step s e s')
  obtain st rs where s: "s = (st, rs)" by (rule prod.exhaust)
  show ?case
  proof (cases e)
    case (CReadDone i)
    with step s show ?thesis
      by (auto simp: reader_done_def dest: creates_in_flight_remove split: option.splits composer_req.splits)
  next
    case (CCreateDone i r)
    with step s show ?thesis
      by (cases r) (auto dest: creates_in_flight_remove split: option.splits composer_req.splits)
  next
    case CSubmit
    with step s show ?thesis
      by (auto simp: composer_submit_def composer_submit_enabled_def split: if_splits)
  next
    case (CPick f)
    with step s show ?thesis
      by (cases f) (auto simp: composer_pick_def split: if_splits)
  qed (use step s in \<open>auto split: if_splits\<close>)
qed

text \<open>
  C25. A post is sent only when its title and content are not blank after trimming; the request
  carries the title and content exactly as typed and the picked image exactly when one is
  picked, each field once, and the page shows that it is publishing.
\<close>

theorem create_request_fields:
  assumes "composer_step (st, rs) CSubmit = Some (st', rs')"
  shows "js_trim (pfm_title (cp_form st)) \<noteq> [] \<and> js_trim (pfm_caption (cp_form st)) \<noteq> [] \<and> cp_loading st' \<and>
         (\<exists>req. rs' = rs @ [CreateReq req] \<and>
            map_of req ''title'' = Some (FormText (pfm_title (cp_form st))) \<and>
            map_of req ''caption'' = Some (FormText (pfm_caption (cp_form st))) \<and>
            map_of req ''image'' = map_option FormFile (pfm_image (cp_form st)) \<and>
            distinct (map fst req))"
  using assms
  by (auto simp: composer_submit_def composer_submit_enabled_def create_request_of_def
      split: if_splits option.splits)

lemma create_failure_keeps_form:
  assumes "composer_step (st, rs) (CCreateDone i (Inl e)) = Some (st', rs')"
  shows "cp_form st' = cp_form st \<and> cp_preview st' = cp_preview st \<and> \<not> cp_loading st' \<and> cp_nav st' = cp_nav st
     \<and> cp_toasts st' = cp_toasts st @ [ToastError (create_error_message e)]
     \<and> create_error_message e \<noteq> []"
proof -
  have "create_error_message e \<noteq> []"
    unfolding create_error_message_def by (rule js_or_default_nonempty) simp
  with assms show ?thesis by (auto split: option.splits composer_req.splits)
qed

text \<open>
  C26. The image preview can show another file than the one the form will upload: the readers
  of two quickly picked files may finish in either order, and a reader still running when
  the file is cleared sets a preview for no file. No reader is cancelled or checked
  against the current file.
\<close>

theorem preview_shows_other_file:
  "\<exists>s1 s2. composer_run (composer_init, []) [CPick (Some 1), CPick (Some 2), CReadDone 1, CReadDone 0] = Some s1
     \<and> pfm_image (cp_form (fst s1)) = Some 2 \<and> cp_preview (fst s1) = Some 1
     \<and> composer_run (composer_init, []) [CPick (Some 1), CPick None, CReadDone 0] = Some s2
     \<and> pfm_image (cp_form (fst s2)) = None \<and> cp_preview (fst s2) = Some 1"
  by (simp add: composer_init_def composer_pick_def reader_done_def nth_opt_def remove_nth_eq)

subsection \<open>Witnesses\<close>

theorem create_request_fields_witness:
  "\<exists>st' rs'. composer_step (composer_filled, [ReadReq 3]) CSubmit = Some (st', rs')
     \<and> rs' = [ReadReq 3, CreateReq [(''title'', FormText ''Hi''), (''caption'', FormText ''There''),
                                  (''image'', FormFile 3)]]"
proof -
  obtain st' rs' where step: "composer_step (composer_filled, [ReadReq 3]) CSubmit = Some (st', rs')"
    and rs': "rs' = [ReadReq 3, CreateReq [(''title'', FormText ''Hi''), (''caption'', FormText ''There''),
                                  (''image'', FormFile 3)]]"
    by (simp add: composer_filled_def composer_unfold)
  have "js_trim (pfm_title (cp_form composer_filled)) \<noteq> []" using create_request_fields [OF step] by simp
  with step rs' show ?thesis by auto
qed

theorem composer_single_submit_witness:
  "\<exists>s. composer_run (composer_init, []) (composer_events @ [CSubmit]) = Some s \<and> composer_reach s
     \<and> cp_loading (fst s) \<and> creates_in_flight (snd s) = 1"
proof -
  obtain s where run: "composer_run (composer_init, []) (composer_events @ [CSubmit]) = Some s"
    and l: "cp_loading (fst s)"
    by (simp add: composer_events_def composer_unfold)
  have reach: "composer_reach s" using composer_run_reach [OF composer_reach.start run] .
  with l composer_single_submit [OF reach] run show ?thesis by auto
qed

lemma create_failure_keeps_form_witness:
  "\<exists>st' rs'. composer_step (composer_filled\<lparr>cp_loading := True\<rparr>, [ReadReq 3, CreateReq []])
        (CCreateDone 1 (Inl NetworkError)) = Some (st', rs')
     \<and> cp_toasts st' = [ToastError ''Failed to create post''] \<and> pfm_title (cp_form st') = ''Hi''"
proof -
  obtain st' rs' where step: "composer_step (composer_filled\<lparr>cp_loading := True\<rparr>, [ReadReq 3, CreateReq []])
        (CCreateDone 1 (Inl NetworkError)) = Some (st', rs')"
    by (simp add: composer_unfold)
  have "cp_form st' = cp_form composer_filled \<and>
        cp_toasts st' = cp_toasts composer_filled @ [ToastError (create_error_message NetworkError)]"
    using create_failure_keeps_form [OF step] by simp
  with step show ?thesis
    by (auto simp: composer_filled_def composer_init_def create_error_message_def)
qed

end
