(* ===== verification/Shell.thy ===== *)
theory Shell
  imports Session Routes
begin

text \<open>
  The application shell: App (src/blog/src/App.jsx) renders the navigation bar
  (src/blog/src/components/Navbar.jsx) above the routes once the session has loaded. The
  shell's state is the current location and the bar's \<open>isMobileMenuOpen\<close>; it runs over
  the session machine of AuthContext.jsx, whose \<open>logout\<close> the bar calls. What the user
  sees is the route table resolved at the location (\<open>app_resolve\<close>).
\<close>

subsection \<open>State and handlers\<close>

record shell_state =
  sh_location :: string
  sh_menu_open :: bool

type_synonym shell_sys = "shell_state \<times> auth_sys"

text \<open>The bar's first render: \<open>useState(false)\<close> at the location the app opened on.\<close>

definition shell_init :: "string \<Rightarrow> shell_state" where
  "shell_init loc = \<lparr>sh_location = loc, sh_menu_open = False\<rparr>"

text \<open>A link of the bar is highlighted when \<open>location.pathname === to\<close>.\<close>

definition nav_active :: "shell_state \<Rightarrow> string \<Rightarrow> bool" where
  "nav_active sh to \<longleftrightarrow> sh_location sh = to"

text \<open>The links the bar shows: the logo, and the items and session links.\<close>

definition bar_links :: "bool \<Rightarrow> string list" where
  "bar_links signed_in = ''/'' # nav_links signed_in"

text \<open>
  \<open>handleLogout\<close>: \<open>logout()\<close>, \<open>navigate('/')\<close>, \<open>setIsMobileMenuOpen(false)\<close>,
  one batch.
\<close>

definition handle_logout :: "shell_state \<Rightarrow> shell_state" where
  "handle_logout sh = sh\<lparr>sh_location := ''/'', sh_menu_open := False\<rparr>"

datatype shell_event =
    NavTo string
  | MobileNavTo string
  | ToggleMenu
  | NavLogout
  | SessionEvent auth_event

text \<open>
  The bar exists once the session has loaded. A desktop link navigates; a link of the
  open mobile menu also closes it; the menu button toggles it; the logout buttons exist
  for a signed-in user. Other session events (the restore, the login and register forms)
  go to the session alone.
\<close>

fun shell_step :: "shell_sys \<Rightarrow> shell_event \<Rightarrow> shell_sys option" where
  "shell_step (sh, a) (NavTo to) =
     (if \<not> auth_loading (fst a) \<and> to \<in> set (bar_links (auth_user (fst a) \<noteq> None))
      then Some (sh\<lparr>sh_location := to\<rparr>, a) else None)"
| "shell_step (sh, a) (MobileNavTo to) =
     (if \<not> auth_loading (fst a) \<and> sh_menu_open sh \<and> to \<in> set (nav_links (auth_user (fst a) \<noteq> None))
      then Some (sh\<lparr>sh_location := to, sh_menu_open := False\<rparr>, a) else None)"
| "shell_step (sh, a) ToggleMenu =
     (if \<not> auth_loading (fst a) then Some (sh\<lparr>sh_menu_open := \<not> sh_menu_open sh\<rparr>, a) else None)"
| "shell_step (sh, a) NavLogout =
     map_option (\<lambda>a'. (handle_logout sh, a')) (auth_sys_step a ClickLogout)"
| "shell_step (sh, a) (SessionEvent e) =
     (if e = ClickLogout then None else map_option (\<lambda>a'. (sh, a')) (auth_sys_step a e))"

text \<open>What is shown: the routes resolved at the location, for the session's state.\<close>

definition shell_view :: "shell_sys \<Rightarrow> app_view option" where
  "shell_view s = app_resolve 2 (auth_loading (fst (snd s))) (auth_user (fst (snd s)) \<noteq> None) (sh_location (fst s))"

inductive shell_reach :: "shell_sys \<Rightarrow> bool" where
  start: "shell_reach (shell_init loc, auth_start stor)"
| step: "shell_reach s \<Longrightarrow> shell_step s e = Some s' \<Longrightarrow> shell_reach s'"

fun shell_run :: "shell_sys \<Rightarrow> shell_event list \<Rightarrow> shell_sys option" where
  "shell_run s [] = Some s"
| "shell_run s (e # es) = (case shell_step s e of None \<Rightarrow> None | Some s' \<Rightarrow> shell_run s' es)"

text \<open>A signed-in session on the profile page.\<close>

definition shell_demo :: shell_sys where
  "shell_demo = (shell_init ''/profile'', the (auth_run (auth_start demo_storage) [ProfileDone (Inr demo_user)]))"

subsection \<open>Lemmas\<close>

lemma app_render_root: "app_render False b ''/'' = HomeView"
  by (simp add: app_render_def match_root_def strip_slashes_def)

text \<open>
  C30. The bar's logout signs out from wherever the user is: the user is gone, both
  tokens are removed, the bar closes its mobile menu and the location becomes \<open>/\<close>, which
  shows the home page; requests already in flight are left to complete.
\<close>

theorem navbar_logout_lands_home:
  assumes "shell_step s NavLogout = Some s'"
  shows "auth_user (fst (snd s')) = None \<and> auth_storage (fst (snd s')) = storage_cleared (auth_storage (fst (snd s)))
     \<and> sh_location (fst s') = ''/'' \<and> \<not> sh_menu_open (fst s') \<and> shell_view s' = Some HomeView
     \<and> snd (snd s') = snd (snd s)"
proof -
  obtain sh st n where s: "s = (sh, (st, n))" by (metis prod.exhaust)
  from assms s have g: "\<not> auth_loading st \<and> auth_user st \<noteq> None"
    and s': "s' = (handle_logout sh, (logout st, n))"
    by (auto split: if_splits)
  have "app_resolve 2 False False ''/'' = Some HomeView"
    by (simp add: numeral_2_eq_2 app_render_root)
  with g s' s show ?thesis
    by (simp add: handle_logout_def logout_def shell_view_def)
qed


text \<open>
  The highlight compares paths literally, while routes ignore trailing slashes: at
  \<open>/profile/\<close> the profile page shows and no link of the bar is highlighted.
\<close>

lemma highlight_trailing_slash:
  "app_render False True ''/profile/'' = ProfileView \<and>
   (\<forall>to\<in>set (bar_links True). \<not> nav_active (shell_init ''/profile/'') to)"
proof -
  have "app_render False True ''/profile/'' = ProfileView" by code_simp
  moreover have "\<forall>to\<in>set (bar_links True). \<not> nav_active (shell_init ''/profile/'') to"
    by (simp add: bar_links_def nav_links_def nav_items_def nav_active_def shell_init_def)
  ultimately show ?thesis by blast
qed

subsection \<open>Witnesses\<close>

theorem navbar_logout_lands_home_witness:
  "\<exists>s'. shell_step shell_demo NavLogout = Some s' \<and> shell_view s' = Some HomeView
     \<and> auth_user (fst (snd shell_demo)) = Some demo_user"
proof -
  obtain s' where step: "shell_step shell_demo NavLogout = Some s'"
    by (simp add: shell_demo_def session_unfold)
  have "shell_view s' = Some HomeView" using navbar_logout_lands_home [OF step] by simp
  moreover have "auth_user (fst (snd shell_demo)) = Some demo_user"
    by (simp add: shell_demo_def session_unfold)
  ultimately show ?thesis using step by blast
qed

end
