(* ===== verification/Views.thy ===== *)
theory Views
  imports Feed Actions Routes ProfilePage Search Composer
begin

text \<open>
  What the pages render. The JSX of src/blog/src/components/PostCard.jsx,
  src/blog/src/components/SearchBar.jsx, src/blog/src/pages/Home.jsx,
  src/blog/src/pages/PostDetail.jsx, src/blog/src/pages/Profile.jsx and
  src/blog/src/pages/CreatePost.jsx is modelled as a tree of the elements a user can see or
  use: texts, icons, images, links with their target, buttons with their handler and
  whether they are enabled, forms and their inputs, and the \<open>key\<close> of each list item.
  Layout and styling (class names, the wrapping \<open>div\<close>s) are left out; a \<open>VBox\<close>
  stands for any element that only groups its children. Dates
  (\<open>toLocaleDateString\<close>) depend on the browser's locale and are not rendered.
  The view functions are total and executable, so a page's render can be evaluated on a
  concrete state; the lemmas follow every link a page shows through the route table, and
  show that the character counters of the comment box and the composer are not enforced by
  the handlers behind them, and that a mounted card keeps the post it was mounted with.
\<close>

subsection \<open>Elements\<close>

text \<open>The handlers a button or a form is wired to (\<open>NoHandler\<close>: no \<open>onClick\<close>).\<close>

datatype ui_action =
    OnLike | OnDelete | OnEdit | OnLoadMore | OnBack | OnSubmit | OnCancel | OnToggle | OnClear | NoHandler

datatype vnode =
    VSpinner
  | VText string
  | VIcon string
  | VImg string
  | VInput string string
  | VSelect string string "(string \<times> string) list"
  | VLink string "vnode list"
  | VButton ui_action bool "vnode list"
  | VForm ui_action "vnode list"
  | VSearchBar
  | VKeyed nat vnode
  | VBox "vnode list"

text \<open>The targets of the links of a view, in document order.\<close>

fun vlinks :: "vnode \<Rightarrow> string list" where
  "vlinks (VLink to cs) = to # concat (map vlinks cs)"
| "vlinks (VButton a en cs) = concat (map vlinks cs)"
| "vlinks (VForm a cs) = concat (map vlinks cs)"
| "vlinks (VKeyed k v) = vlinks v"
| "vlinks (VBox cs) = concat (map vlinks cs)"
| "vlinks _ = []"

text \<open>The buttons of a view: the key of the list item they belong to, handler, enabled.\<close>

fun vbuttons :: "nat option \<Rightarrow> vnode \<Rightarrow> (nat option \<times> ui_action \<times> bool) list" where
  "vbuttons k (VButton a en cs) = (k, a, en) # concat (map (vbuttons k) cs)"
| "vbuttons k (VLink to cs) = concat (map (vbuttons k) cs)"
| "vbuttons k (VForm a cs) = concat (map (vbuttons k) cs)"
| "vbuttons k (VKeyed i v) = vbuttons (Some i) v"
| "vbuttons k (VBox cs) = concat (map (vbuttons k) cs)"
| "vbuttons k _ = []"

text \<open>The texts of a view, in document order.\<close>

fun vtexts :: "vnode \<Rightarrow> string list" where
  "vtexts (VText t) = [t]"
| "vtexts (VLink to cs) = concat (map vtexts cs)"
| "vtexts (VButton a en cs) = concat (map vtexts cs)"
| "vtexts (VForm a cs) = concat (map vtexts cs)"
| "vtexts (VKeyed k v) = vtexts v"
| "vtexts (VBox cs) = concat (map vtexts cs)"
| "vtexts _ = []"

text \<open>The names of the inputs of a view.\<close>

fun vinputs :: "vnode \<Rightarrow> string list" where
  "vinputs (VInput n v) = [n]"
| "vinputs (VSelect n v opts) = [n]"
| "vinputs (VLink to cs) = concat (map vinputs cs)"
| "vinputs (VButton a en cs) = concat (map vinputs cs)"
| "vinputs (VForm a cs) = concat (map vinputs cs)"
| "vinputs (VKeyed k v) = vinputs v"
| "vinputs (VBox cs) = concat (map vinputs cs)"
| "vinputs _ = []"

text \<open>The values a select of a view offers, by the select's name.\<close>

fun voptions :: "string \<Rightarrow> vnode \<Rightarrow> string list" where
  "voptions n (VSelect m v opts) = (if m = n then map fst opts else [])"
| "voptions n (VLink to cs) = concat (map (voptions n) cs)"
| "voptions n (VButton a en cs) = concat (map (voptions n) cs)"
| "voptions n (VForm a cs) = concat (map (voptions n) cs)"
| "voptions n (VKeyed k v) = voptions n v"
| "voptions n (VBox cs) = concat (map (voptions n) cs)"
| "voptions n _ = []"

subsection \<open>Shared pieces\<close>

text \<open>
  A profile picture is served by the API host:
  \<open>src={`http://127.0.0.1:8000${...profile_picture}`}\<close>; a falsy picture shows the
  \<open>User\<close> icon instead.
\<close>

definition media_url :: "string \<Rightarrow> string" where
  "media_url pic = ''http://127.0.0.1:8000'' @ pic"

definition avatar :: "string option \<Rightarrow> vnode" where
  "avatar pic = (if js_truthy_str pic then VImg (media_url (the pic)) else VIcon ''User'')"

text \<open>\<open>{post.image && <img src={`${post.image}`} />}\<close>: the image URL as given.\<close>

definition post_image_view :: "string option \<Rightarrow> vnode list" where
  "post_image_view img = (if js_truthy_str img then [VImg (the img)] else [])"

definition heart :: "bool \<Rightarrow> vnode" where
  "heart liked = VIcon (if liked then ''Heart filled'' else ''Heart'')"

subsection \<open>PostCard\<close>

text \<open>\<open>canEdit = user && user.id === post.author.id\<close>.\<close>

definition card_can_edit :: "user option \<Rightarrow> post \<Rightarrow> bool" where
  "card_can_edit viewer p \<longleftrightarrow> map_option user_id viewer = Some (post_author p)"

definition card_view :: "user option \<Rightarrow> post \<Rightarrow> card_state \<Rightarrow> vnode" where
  "card_view viewer p c =
     VBox
      [VBox ([VBox [avatar (post_author_picture p), VText (post_author_username p)]] @
             (if card_can_edit viewer p
              then [VBox [VLink (edit_link (post_id p)) [VIcon ''Edit''],
                          VButton OnDelete True [VIcon ''Trash2'']]]
              else [])),
       VLink (post_link (post_id p))
         ([VText (post_title p)] @ post_image_view (post_image p) @ [VText (post_caption p)]),
       VBox
        [VBox
          [VButton OnLike (\<not> card_loading c)
             [heart (card_is_liked c), VText (js_num_str (card_likes_count c))],
           VLink (post_link (post_id p))
             [VIcon ''MessageCircle'', VText (js_num_str (post_comments_count p))]],
         VLink (post_link (post_id p)) [VText ''Read More'']]]"

subsection \<open>Home\<close>

text \<open>
  The state of the mounted cards, by key. A \<open>PostCard\<close> keeps its state while an item
  with its key stays in the list (\<open>useState(post.is_liked)\<close> reads the prop only on
  mount); a new key mounts a card initialised from its post; a key that leaves the list
  unmounts its card. Of items with the same key the first is taken.
\<close>

type_synonym card_mounts = "post_id \<Rightarrow> card_state option"

definition mounted_card :: "card_mounts \<Rightarrow> post \<Rightarrow> card_state" where
  "mounted_card cm p = (case cm (post_id p) of Some c \<Rightarrow> c | None \<Rightarrow> card_init p)"

definition cards_reconcile :: "card_mounts \<Rightarrow> post list \<Rightarrow> card_mounts" where
  "cards_reconcile cm ps = (\<lambda>i. map_option (mounted_card cm) (find (\<lambda>p. post_id p = i) ps))"

definition home_view :: "user option \<Rightarrow> card_mounts \<Rightarrow> home_state \<Rightarrow> vnode" where
  "home_view viewer cm st =
     (if home_loading st \<and> home_posts st = [] then VSpinner
      else VBox
       ([VBox ([VText ''Welcome to BlogApp'', VText ''Discover amazing stories and share your thoughts''] @
               (if viewer \<noteq> None then [VLink ''/create-post'' [VIcon ''PlusCircle'', VText ''Create Post'']]
                else [])),
         VSearchBar] @
        (if home_posts st \<noteq> []
         then [VBox (map (\<lambda>p. VKeyed (post_id p) (card_view viewer p (mounted_card cm p))) (home_posts st) @
                     (if js_truthy_str (pg_next (home_pagination st))
                      then [VButton OnLoadMore True [VIcon ''RefreshCw'', VText ''Load More Posts'']]
                      else []))]
         else [VBox ([VIcon ''PlusCircle'', VText ''No posts found'', VText ''Be the first to share your story!''] @
                     (if viewer \<noteq> None
                      then [VLink ''/create-post'' [VIcon ''PlusCircle'', VText ''Create Your First Post'']]
                      else []))])))"

text \<open>
  The feed with its mounted cards: after every step of the feed machine Home renders and
  the cards are reconciled with the posts it lists.
\<close>

type_synonym feed_ui = "home_sys \<times> card_mounts"

definition feed_ui_start :: feed_ui where
  "feed_ui_start = (home_start, cards_reconcile Map.empty (home_posts (fst home_start)))"

definition feed_ui_step :: "feed_ui \<Rightarrow> home_event \<Rightarrow> feed_ui option" where
  "feed_ui_step u e =
     map_option (\<lambda>s'. (s', cards_reconcile (snd u) (home_posts (fst s')))) (home_sys_step (fst u) e)"

inductive feed_ui_reach :: "feed_ui \<Rightarrow> bool" where
  start: "feed_ui_reach feed_ui_start"
| step: "feed_ui_reach u \<Longrightarrow> feed_ui_step u e = Some u' \<Longrightarrow> feed_ui_reach u'"

fun feed_ui_run :: "feed_ui \<Rightarrow> home_event list \<Rightarrow> feed_ui option" where
  "feed_ui_run u [] = Some u"
| "feed_ui_run u (e # es) = (case feed_ui_step u e of None \<Rightarrow> None | Some u' \<Rightarrow> feed_ui_run u' es)"

subsection \<open>PostDetail\<close>

definition comment_view :: "comment \<Rightarrow> vnode" where
  "comment_view c =
     VKeyed (comment_id c)
       (VBox [avatar (comment_user_picture c), VBox [VText (comment_username c), VText (comment_content c)]])"

text \<open>The article: header with the author's buttons, title, image, caption, counts.\<close>

definition detail_post_view :: "user option \<Rightarrow> detail_state \<Rightarrow> post \<Rightarrow> vnode" where
  "detail_post_view viewer d p =
     VBox
      ([VBox ([VBox [avatar (post_author_picture p), VText (post_author_username p)]] @
              (if detail_can_edit (map_option user_id viewer) d
               then [VBox [VButton NoHandler True [VIcon ''Edit''], VButton OnDelete True [VIcon ''Trash2'']]]
               else [])),
        VText (post_title p)] @ post_image_view (post_image p) @
       [VText (post_caption p),
        VBox [VButton OnLike True
                [heart (dt_is_liked d), VText (fst (fst (detail_counts d))), VText (snd (fst (detail_counts d)))],
              VBox [VIcon ''MessageCircle'', VText (fst (snd (detail_counts d))), VText (snd (snd (detail_counts d)))]]])"

text \<open>
  The comments section: the count, the form for a signed-in user (with its character
  counter and its submit button) or the invitation to log in, and the list.
\<close>

definition comment_counter :: "string \<Rightarrow> string" where
  "comment_counter txt = js_num_str (length txt) @ ''/1000 characters''"

definition detail_comments_view :: "user option \<Rightarrow> detail_state \<Rightarrow> vnode" where
  "detail_comments_view viewer d =
     VBox
      ([VText (''Comments ('' @ js_num_str (length (dt_comments d)) @ '')'')] @
       (case viewer of
          Some u \<Rightarrow>
            [VForm OnSubmit
              [avatar (user_profile_picture u), VInput ''comment'' (dt_new_comment d),
               VText (comment_counter (dt_new_comment d)),
               VButton OnSubmit (\<not> (dt_comment_loading d \<or> js_trim (dt_new_comment d) = []))
                 [VIcon ''Send'', VText (if dt_comment_loading d then ''Posting...'' else ''Post Comment'')]]]
        | None \<Rightarrow>
            [VBox [VText ''Please login to join the conversation'', VLink ''/login'' [VText ''Login to Comment'']]]) @
       [VBox (if dt_comments d \<noteq> [] then map comment_view (dt_comments d)
              else [VIcon ''MessageCircle'', VText ''No comments yet. Be the first to share your thoughts!''])])"

definition detail_view :: "user option \<Rightarrow> detail_state \<Rightarrow> vnode" where
  "detail_view viewer d =
     (if dt_loading d then VSpinner
      else case dt_post d of
        None \<Rightarrow> VBox [VText ''Post not found'', VLink ''/'' [VText ''Back to Home'']]
      | Some p \<Rightarrow>
          VBox [VButton OnBack True [VIcon ''ArrowLeft'', VText ''Back to Posts''],
                detail_post_view viewer d p, detail_comments_view viewer d])"

subsection \<open>Profile\<close>

definition form_field :: "(string \<times> string) list \<Rightarrow> string \<Rightarrow> string" where
  "form_field f k = (case map_of f k of Some v \<Rightarrow> v | None \<Rightarrow> [])"

text \<open>
  \<open>if (!user) return null\<close>; otherwise the header with the edit button, the user's
  picture, name and e-mail, and either the edit form or the bio and the statistics.
\<close>

definition profile_view :: "user option \<Rightarrow> profile_state \<Rightarrow> vnode option" where
  "profile_view u ps =
     (case u of
        None \<Rightarrow> None
      | Some usr \<Rightarrow> Some (VBox
         [VBox ([VText ''Profile''] @
                (if \<not> pf_editing ps then [VButton OnEdit True [VIcon ''Edit'', VText ''Edit Profile'']] else [])),
          VBox [avatar (user_profile_picture usr), VText (user_username usr), VText (user_email usr)],
          (if pf_editing ps
           then VForm OnSubmit
             [VInput ''username'' (form_field (pf_form ps) ''username''),
              VInput ''bio'' (form_field (pf_form ps) ''bio''),
              VButton OnSubmit (\<not> pf_loading ps)
                [VIcon ''Save'', VText (if pf_loading ps then ''Saving...'' else ''Save Changes'')],
              VButton OnCancel True [VIcon ''X'', VText ''Cancel'']]
           else VBox
             [VText ''Bio'', VText (if user_bio usr \<noteq> [] then user_bio usr else ''No bio available''),
              VText ''Stats'',
              VBox [VText (js_num_str (user_posts_count usr)), VText ''Posts''],
              VBox [VText ''0'', VText ''Likes Received''],
              VBox [VText ''0'', VText ''Comments Made'']])]))"

subsection \<open>SearchBar\<close>

text \<open>
  The bar: the search input, the filter toggle, Clear All when
  \<open>searchQuery || filters.author || filters.ordering !== '-created_at'\<close>, and the
  advanced filters (author input, ordering select) while \<open>showFilters\<close>.
\<close>

definition sb_view :: "sb_state \<Rightarrow> vnode" where
  "sb_view st =
     VBox
      ([VBox [VIcon ''Search'', VInput ''search'' (sb_query st)],
        VBox ([VButton OnToggle True [VIcon ''Filter'', VText ''Advanced Filters'']] @
              (if clear_shown st then [VButton OnClear True [VIcon ''X'', VText ''Clear All'']] else []))] @
       (if sb_show_filters st
        then [VBox
               [VBox [VText ''Author'', VInput ''author'' (form_field (sb_filters st) ''author'')],
                VBox [VText ''Sort By'',
                      VSelect ''ordering'' (form_field (sb_filters st) ''ordering'')
                        [(''-created_at'', ''Newest First''), (''created_at'', ''Oldest First''),
                         (''title'', ''Title A-Z''), (''-title'', ''Title Z-A'')]]]]
        else []))"

subsection \<open>CreatePost\<close>

text \<open>
  The composer: heading, the form with the title input, the file input and the preview of
  the picked image (a file stands for the data URL its reader produced), the content
  textarea with its counter, the publish button
  (\<open>disabled={loading || !formData.title.trim() || !formData.caption.trim()}\<close>) and Cancel.
\<close>

definition composer_view :: "composer_state \<Rightarrow> vnode" where
  "composer_view st =
     VBox
      [VBox [VText ''Create New Post'', VText ''Share your thoughts and stories with the community''],
       VForm OnSubmit
        ([VInput ''title'' (pfm_title (cp_form st)), VInput ''image'' []] @
         post_image_view (map_option js_num_str (cp_preview st)) @
         [VInput ''caption'' (pfm_caption (cp_form st)),
          VText (js_num_str (length (pfm_caption (cp_form st))) @ ''/2000 characters''),
          VButton OnSubmit
            (\<not> (cp_loading st \<or> js_trim (pfm_title (cp_form st)) = [] \<or> js_trim (pfm_caption (cp_form st)) = []))
            [VIcon ''Save'', VText (if cp_loading st then ''Publishing...'' else ''Publish Post'')],
          VButton OnCancel True [VText ''Cancel'']])]"

subsection \<open>Lemmas\<close>

lemma avatar_inert [simp]:
  "vbuttons k (avatar x) = [] \<and> vlinks (avatar x) = [] \<and> vinputs (avatar x) = [] \<and> vtexts (avatar x) = []"
  by (simp add: avatar_def)

lemma heart_inert [simp]:
  "vbuttons k (heart b) = [] \<and> vlinks (heart b) = [] \<and> vinputs (heart b) = [] \<and> vtexts (heart b) = []"
  by (simp add: heart_def)

lemma post_image_inert [simp]:
  "concat (map (vbuttons k) (post_image_view i)) = [] \<and> concat (map vlinks (post_image_view i)) = [] \<and>
   concat (map vinputs (post_image_view i)) = []"
  by (simp add: post_image_view_def)

lemma comment_view_inert [simp]:
  "vbuttons k (comment_view c) = [] \<and> vlinks (comment_view c) = [] \<and> vinputs (comment_view c) = []"
  by (simp add: comment_view_def)

lemma card_view_links:
  "vlinks (card_view v p c) =
     (if card_can_edit v p then [edit_link (post_id p)] else []) @
     [post_link (post_id p), post_link (post_id p), post_link (post_id p)]"
  by (simp add: card_view_def)

lemma home_view_links:
  "set (vlinks (home_view v cm st)) =
     (if home_loading st \<and> home_posts st = [] then {} else
      (if v \<noteq> None then {''/create-post''} else {}) \<union>
      (\<Union>p\<in>set (home_posts st). set (vlinks (card_view v p (mounted_card cm p)))))"
  by (auto simp: home_view_def)

lemma detail_view_buttons:
  "set (vbuttons None (detail_view v d)) =
     (if detail_shown d then
        {(None, OnBack, True), (None, OnLike, True)} \<union>
        (if detail_can_edit (map_option user_id v) d then {(None, NoHandler, True), (None, OnDelete, True)} else {}) \<union>
        (if v \<noteq> None then {(None, OnSubmit, \<not> (dt_comment_loading d \<or> js_trim (dt_new_comment d) = []))} else {})
      else {})"
  by (auto simp: detail_view_def detail_post_view_def detail_comments_view_def detail_shown_def
      detail_can_edit_def split: option.splits)

lemma detail_view_links:
  "set (vlinks (detail_view v d)) =
     (if dt_loading d then {} else
      case dt_post d of None \<Rightarrow> {''/''} | Some p \<Rightarrow> (if v = None then {''/login''} else {}))"
  by (auto simp: detail_view_def detail_post_view_def detail_comments_view_def split: option.splits)

lemma app_render_page_links:
  "app_render False s ''/'' = HomeView \<and> app_render False False ''/login'' = LoginView \<and>
   app_render False True ''/create-post'' = CreatePostView"
  by (simp add: route_unfold)

lemma detail_view_texts:
  "detail_shown d \<Longrightarrow> v = Some u \<Longrightarrow> comment_counter (dt_new_comment d) \<in> set (vtexts (detail_view v d))"
  by (auto simp: detail_view_def detail_comments_view_def detail_shown_def)

lemma composer_view_shows:
  "js_num_str (length (pfm_caption (cp_form st))) @ ''/2000 characters'' \<in> set (vtexts (composer_view st)) \<and>
   (None, OnSubmit, composer_submit_enabled st) \<in> set (vbuttons None (composer_view st))"
  by (simp add: composer_view_def composer_submit_enabled_def)

lemma cards_reconcile_dom: "dom (cards_reconcile cm ps) = post_id ` set ps"
proof -
  have "find (\<lambda>p. post_id p = i) ps \<noteq> None \<longleftrightarrow> i \<in> post_id ` set ps" for i
    by (auto simp: find_None_iff)
  then show ?thesis by (auto simp: cards_reconcile_def dom_def)
qed

lemma feed_ui_run_reach: "feed_ui_reach u \<Longrightarrow> feed_ui_run u es = Some u' \<Longrightarrow> feed_ui_reach u'"
proof (induction es arbitrary: u)
  case (Cons e es)
  show ?case
  proof (cases "feed_ui_step u e")
    case None
    with Cons.prems show ?thesis by simp
  next
    case (Some u1)
    with Cons.prems have "feed_ui_reach u1" and "feed_ui_run u1 es = Some u'"
      by (auto intro: feed_ui_reach.step)
    then show ?thesis by (rule Cons.IH)
  qed
qed simp

subsection \<open>What the pages offer\<close>

text \<open>
  C31. Every link the home page, its cards and the post page show, except a card's edit link,
  renders a page of App for the same user at once: none leads to the empty no-route page
  and none is bounced by a redirect.
\<close>

theorem shown_links_route:
  assumes "l \<in> set (vlinks (home_view v cm st)) \<union> set (vlinks (detail_view v d))"
    and "l \<notin> range edit_link"
  shows "app_render False (v \<noteq> None) l \<noteq> NoRoute \<and> \<not> is_navigate (app_render False (v \<noteq> None) l)"
proof -
  have "l = ''/'' \<or> (l = ''/login'' \<and> v = None) \<or> (l = ''/create-post'' \<and> v \<noteq> None) \<or> (\<exists>n. l = post_link n)"
    using assms by (auto simp: home_view_links detail_view_links card_view_links split: if_splits option.splits)
  then show ?thesis
    by (auto simp: app_render_page_links app_render_post_link is_navigate_def)
qed

text \<open>
  C32. The comment box shows a counter against 1000 characters but nothing enforces it: on the
  loaded page, a draft that is not blank has its submit button enabled whatever its
  length, the counter shows its length, and the whole draft is sent.
\<close>

theorem comment_length_unbounded:
  assumes "detail_shown d" and "\<not> dt_comment_loading d" and "js_trim (dt_new_comment d) \<noteq> []"
  shows "comment_counter (dt_new_comment d) \<in> set (vtexts (detail_view (Some u) d)) \<and>
    (None, OnSubmit, True) \<in> set (vbuttons None (detail_view (Some u) d)) \<and>
    snd (comment_submit True pid d) = Some (comment_request pid (dt_new_comment d), dt_comments d)"
  using assms by (simp add: detail_view_texts detail_view_buttons comment_submit_def)

text \<open>
  C33. A card does not follow its post after a refetch: once a card is mounted, a new answer
  for the same post id with another like count leaves the card showing the old count,
  since the card read the post only when it mounted.
\<close>

theorem card_stale_after_refetch:
  "\<exists>u. feed_ui_run feed_ui_start
          [HFetchDone 0 (Inr (demo_page [demo_liked_post] None)), HSearch ''a'',
           HFetchDone 0 (Inr (demo_page [demo_liked_post\<lparr>post_likes_count := 5\<rparr>] None))] = Some u \<and>
       feed_ui_reach u \<and> home_posts (fst (fst u)) = [demo_liked_post\<lparr>post_likes_count := 5\<rparr>] \<and>
       ''3'' \<in> set (vtexts (home_view None (snd u) (fst (fst u)))) \<and>
       ''5'' \<notin> set (vtexts (home_view None (snd u) (fst (fst u))))"
proof -
  obtain u where run: "feed_ui_run feed_ui_start
          [HFetchDone 0 (Inr (demo_page [demo_liked_post] None)), HSearch ''a'',
           HFetchDone 0 (Inr (demo_page [demo_liked_post\<lparr>post_likes_count := 5\<rparr>] None))] = Some u"
    and st: "home_posts (fst (fst u)) = [demo_liked_post\<lparr>post_likes_count := 5\<rparr>] \<and>
       ''3'' \<in> set (vtexts (home_view None (snd u) (fst (fst u)))) \<and>
       ''5'' \<notin> set (vtexts (home_view None (snd u) (fst (fst u))))"
    by (simp add: feed_ui_start_def feed_ui_step_def feed_unfold cards_reconcile_def mounted_card_def
        card_init_def demo_liked_post_def home_view_def card_view_def js_num_str.simps
        avatar_def post_image_view_def heart_def js_simps)
  have "feed_ui_reach u" using feed_ui_reach.start run by (rule feed_ui_run_reach)
  with run st show ?thesis by blast
qed

text \<open>
  C35. The composer counts the caption against 2000 characters but nothing enforces it:
  with a title and a caption that are not blank, whatever the caption's length, the counter
  shows that length, the publish button is enabled, the composer accepts the submission and
  the request carries the whole caption.
\<close>

theorem caption_length_unbounded:
  assumes "cp_nav st = None" and "\<not> cp_loading st"
    and "js_trim (pfm_title (cp_form st)) \<noteq> []" and "js_trim (pfm_caption (cp_form st)) \<noteq> []"
  shows "js_num_str (length (pfm_caption (cp_form st))) @ ''/2000 characters'' \<in> set (vtexts (composer_view st)) \<and>
    (None, OnSubmit, True) \<in> set (vbuttons None (composer_view st)) \<and>
    composer_step (st, rs) CSubmit =
      Some (st\<lparr>cp_loading := True\<rparr>, rs @ [CreateReq (create_request_of (cp_form st))]) \<and>
    (''caption'', FormText (pfm_caption (cp_form st))) \<in> set (create_request_of (cp_form st))"
  using assms composer_view_shows [of st]
  by (simp add: composer_submit_enabled_def composer_submit_def create_request_of_def)

subsection \<open>Witnesses\<close>

theorem caption_length_unbounded_witness:
  "js_num_str (length (replicate 2001 CHR ''a'')) @ ''/2000 characters'' = ''2001/2000 characters'' \<and>
   composer_step (composer_init\<lparr>cp_form := \<lparr>pfm_title = ''T'', pfm_caption = replicate 2001 CHR ''a'', pfm_image = None\<rparr>\<rparr>, [])
     CSubmit \<noteq> None"
proof -
  let ?st = "composer_init\<lparr>cp_form := \<lparr>pfm_title = ''T'', pfm_caption = replicate 2001 CHR ''a'', pfm_image = None\<rparr>\<rparr>"
  have n: "cp_nav ?st = None" and l: "\<not> cp_loading ?st" by (simp_all add: composer_init_def)
  have t: "js_trim (pfm_title (cp_form ?st)) \<noteq> []" and c: "js_trim (pfm_caption (cp_form ?st)) \<noteq> []"
    by (simp_all add: js_trim_empty_iff js_is_space_def)
  have "composer_step (?st, []) CSubmit \<noteq> None"
    using caption_length_unbounded [OF n l t c, of "[]"] by simp
  moreover have "js_num_str (length (replicate 2001 CHR ''a'')) @ ''/2000 characters'' = ''2001/2000 characters''"
    by (simp add: js_num_str.simps js_simps)
  ultimately show ?thesis by simp
qed

theorem comment_length_unbounded_witness:
  "comment_counter (dt_new_comment (set_new_comment (replicate 1001 CHR ''a'') demo_detail)) = ''1001/1000 characters'' \<and>
   snd (comment_submit True 5 (set_new_comment (replicate 1001 CHR ''a'') demo_detail)) =
     Some (comment_request 5 (replicate 1001 CHR ''a''), [])"
proof -
  let ?d = "set_new_comment (replicate 1001 CHR ''a'') demo_detail"
  have sh: "detail_shown ?d" and nl: "\<not> dt_comment_loading ?d"
    by (simp_all add: set_new_comment_def demo_detail_def detail_init_def detail_shown_def)
  have nb: "js_trim (dt_new_comment ?d) \<noteq> []"
    by (simp add: set_new_comment_def js_trim_empty_iff js_is_space_def)
  have "snd (comment_submit True 5 ?d) = Some (comment_request 5 (dt_new_comment ?d), dt_comments ?d)"
    using comment_length_unbounded [OF sh nl nb, of demo_user 5] by blast
  moreover have "comment_counter (dt_new_comment ?d) = ''1001/1000 characters''"
    by (simp add: set_new_comment_def comment_counter_def js_num_str.simps js_simps)
  ultimately show ?thesis
    by (simp add: set_new_comment_def demo_detail_def detail_init_def)
qed

theorem shown_links_route_witness:
  "''/'' \<in> set (vlinks (detail_view None (fetch_post_done detail_init (Inl NetworkError)))) \<and>
   app_render False False ''/'' = HomeView"
proof -
  have l: "''/'' \<in> set (vlinks (detail_view None (fetch_post_done detail_init (Inl NetworkError))))"
    by (simp add: detail_view_def detail_init_def)
  have e: "''/'' \<notin> range edit_link" by (auto simp: edit_link_def)
  have m: "''/'' \<in> set (vlinks (home_view None Map.empty home_init)) \<union>
      set (vlinks (detail_view None (fetch_post_done detail_init (Inl NetworkError))))"
    using l by blast
  have "app_render False False ''/'' \<noteq> NoRoute"
    using shown_links_route [OF m e] by simp
  then show ?thesis using l by (simp add: route_unfold)
qed

end
