(* ===== verification/HomeSession.thy ===== *)
theory HomeSession
  imports HomePage Session
begin

text \<open>
  The home page under the session. Home (src/blog/src/pages/Home.jsx) reads \<open>user\<close>
  with \<open>useAuth()\<close>, so it is a consumer of the context of
  src/blog/src/contexts/AuthContext.jsx, whose \<open>value\<close> is a new object on every
  render of the provider. Every change of the provider's state (\<open>setUser\<close>,
  \<open>setLoading\<close>) therefore renders Home, and with it SearchBar gets new \<open>onSearch\<close>
  and \<open>onFilter\<close> functions and runs both its effects again. The session changes while
  Home is shown through the navigation bar's logout and through the answers of login,
  register or profile requests sent before the user came to the page; the session's forms
  are not on this page. App mounts Home only once the session has loaded.
\<close>

subsection \<open>The composed machine\<close>

text \<open>
  Which session events re-render the provider: \<open>setUser\<close> with a new object or
  \<open>null\<close>, \<open>setLoading(false)\<close>; a failed login, register or update only toasts, and
  the forms' submissions change no state before their \<open>await\<close>.
\<close>

fun session_renders :: "auth_event \<Rightarrow> bool" where
  "session_renders (ProfileDone r) = True"
| "session_renders (LoginDone r) = (\<not> isl r)"
| "session_renders (RegisterDone r) = (\<not> isl r)"
| "session_renders (ProfileUpdateDone r) = (\<not> isl r)"
| "session_renders ClickLogout = True"
| "session_renders _ = False"

fun session_form_event :: "auth_event \<Rightarrow> bool" where
  "session_form_event (SubmitLogin e pw) = True"
| "session_form_event (SubmitRegister d) = True"
| "session_form_event (SubmitProfile d) = True"
| "session_form_event _ = False"

type_synonym home_session = "page_state \<times> auth_sys"

datatype hs_event = HSPage page_event | HSSession nat auth_event

text \<open>
  A page event while the session is loaded; a session event at a time, with the render of
  Home it causes (\<open>page_settle\<close> with Home rendered). App would unmount Home if the
  session went back to loading, so such a step is not one of this page.
\<close>

fun home_session_step :: "home_session \<Rightarrow> hs_event \<Rightarrow> home_session option" where
  "home_session_step (p, a) (HSPage e) =
     (if auth_loading (fst a) then None else map_option (\<lambda>p'. (p', a)) (page_step p e))"
| "home_session_step (p, a) (HSSession t e) =
     (if auth_loading (fst a) \<or> session_form_event e \<or> \<not> page_quiet t p then None
      else (case auth_sys_step a e of
              None \<Rightarrow> None
            | Some a' \<Rightarrow>
                if auth_loading (fst a') then None
                else if session_renders e
                then map_option (\<lambda>p'. (p', a')) (page_settle page_fuel True (page_at t p))
                else Some (page_at t p, a')))"

inductive home_session_reach :: "home_session \<Rightarrow> bool" where
  start: "auth_reach a \<Longrightarrow> \<not> auth_loading (fst a) \<Longrightarrow> home_session_reach (page_start, a)"
| step: "home_session_reach s \<Longrightarrow> home_session_step s e = Some s' \<Longrightarrow> home_session_reach s'"

fun home_session_run :: "home_session \<Rightarrow> hs_event list \<Rightarrow> home_session option" where
  "home_session_run s [] = Some s"
| "home_session_run s (e # es) =
     (case home_session_step s e of None \<Rightarrow> None | Some s' \<Rightarrow> home_session_run s' es)"

text \<open>The page as it settles: SearchBar mounted exactly when shown, holding Home's object.\<close>

definition page_inv :: "page_state \<Rightarrow> bool" where
  "page_inv p \<longleftrightarrow> (hp_bar p \<noteq> None) = bar_shown (fst (hp_home p)) \<and> page_synced p"

text \<open>A signed-in session on the loaded home page.\<close>

definition home_session_demo :: home_session where
  "home_session_demo = (page_loaded, the (auth_run (auth_start demo_storage) [ProfileDone (Inr demo_user)]))"

subsection \<open>Lemmas\<close>

lemma context_render_settled:
  assumes "page_inv p"
  shows "page_settle (Suc n) True p = Some (p\<lparr>hp_bar := map_option sb_search_effect (hp_bar p)\<rparr>)"
  using assms by (auto simp: page_inv_def page_synced_def offer_filter_def Let_def split: option.splits)

lemma context_render:
  "page_inv p \<Longrightarrow> page_settle page_fuel True p = Some (p\<lparr>hp_bar := map_option sb_search_effect (hp_bar p)\<rparr>)"
  unfolding page_fuel_def numeral_3_eq_3 by (rule context_render_settled)

lemma page_inv_search_effect: "page_inv p \<Longrightarrow> page_inv (p\<lparr>hp_bar := map_option sb_search_effect (hp_bar p)\<rparr>)"
  by (simp add: page_inv_def page_synced_def)

lemma page_inv_at: "page_inv (page_at t p) = page_inv p"
  by (simp add: page_inv_def page_synced_def page_at_def)

lemma page_step_inv:
  assumes "page_step p e = Some p'" and "page_inv p"
  shows "page_inv p'"
  using page_step_consistent [OF assms(1)] page_step_synced [OF assms(1)] assms(2)
  by (simp add: page_inv_def)

lemma home_session_reach_inv:
  "home_session_reach s \<Longrightarrow> page_inv (fst s) \<and> auth_reach (snd s) \<and> \<not> auth_loading (fst (snd s))"
proof (induction rule: home_session_reach.induct)
  case (start a)
  then show ?case by (simp add: page_inv_def page_synced_def page_start_def feed_unfold bar_shown_def)
next
  case (step s e s')
  obtain p a where s: "s = (p, a)" by (cases s)
  show ?case
  proof (cases e)
    case (HSPage pe)
    with step s show ?thesis by (auto intro: page_step_inv)
  next
    case (HSSession t ae)
    with step s have i: "page_inv (page_at t p)" by (simp add: page_inv_at)
    from step s HSSession show ?thesis
      using context_render [OF i] page_inv_search_effect [OF i] i
      by (auto intro: auth_reach.step split: option.splits if_splits)
  qed
qed

lemma home_session_run_reach:
  "home_session_reach s \<Longrightarrow> home_session_run s es = Some s' \<Longrightarrow> home_session_reach s'"
proof (induction es arbitrary: s)
  case (Cons e es)
  then obtain s1 where "home_session_step s e = Some s1" and "home_session_run s1 es = Some s'"
    by (auto split: option.splits)
  with Cons show ?case by (blast intro: home_session_reach.step)
qed simp

lemma home_session_demo_reach: "home_session_reach home_session_demo"
proof -
  let ?a = "the (auth_run (auth_start demo_storage) [ProfileDone (Inr demo_user)])"
  have r: "auth_run (auth_start demo_storage) [ProfileDone (Inr demo_user)] = Some ?a"
    by (simp add: session_unfold)
  have "auth_reach ?a"
  proof -
    obtain a1 where s: "auth_sys_step (auth_start demo_storage) (ProfileDone (Inr demo_user)) = Some a1"
      and e: "?a = a1"
      using r by (auto split: option.splits)
    show ?thesis using auth_reach.step [OF auth_reach.start s] e by simp
  qed
  moreover have "\<not> auth_loading (fst ?a)" by (simp add: session_unfold)
  ultimately have r0: "home_session_reach (page_start, ?a)" by (rule home_session_reach.start)
  have "page_step page_start (PHome 10 (HFetchDone 0 (Inr (demo_page [demo_post 1 7] None)))) = Some page_loaded"
    by (simp add: page_loaded_def) (simp add: page_unfold)
  then have "home_session_step (page_start, ?a) (HSPage (PHome 10 (HFetchDone 0 (Inr (demo_page [demo_post 1 7] None))))) =
      Some (page_loaded, ?a)"
    using \<open>\<not> auth_loading (fst ?a)\<close> by simp
  with r0 show ?thesis unfolding home_session_demo_def by (rule home_session_reach.step)
qed

subsection \<open>The feed under session changes\<close>

text \<open>
  C34. A change of the session while the home page is shown (the bar's logout, a late
  login, register or profile answer) sends no request and leaves the feed, Home's query and
  both filter objects as they were: the re-render makes SearchBar offer Home the object it
  already holds, which React skips. Its only effect on the page is that SearchBar's search
  effect runs again, re-arming the debounce timer from the moment of the change.
\<close>

theorem session_change_keeps_feed:
  assumes "home_session_reach (p, a)" and "home_session_step (p, a) (HSSession t e) = Some (p', a')"
  shows "hp_home p' = hp_home p \<and> hp_bar_obj p' = hp_bar_obj p \<and> hp_home_obj p' = hp_home_obj p \<and>
    hp_bar p' = map_option (\<lambda>st. if session_renders e then sb_search_effect (st\<lparr>sb_now := t\<rparr>)
                                  else st\<lparr>sb_now := t\<rparr>) (hp_bar p) \<and>
    auth_sys_step a e = Some a'"
proof -
  have i: "page_inv (page_at t p)"
    using home_session_reach_inv [OF assms(1)] by (simp add: page_inv_at)
  show ?thesis
    using assms(2) context_render [OF i]
    by (auto simp: page_at_def option.map_comp comp_def split: option.splits if_splits)
qed

subsection \<open>Witnesses\<close>

theorem session_change_keeps_feed_witness:
  "\<exists>p a p' a'. home_session_run home_session_demo [HSPage (PBar (SType 50 ''a''))] = Some (p, a) \<and>
     home_session_step (p, a) (HSSession 300 ClickLogout) = Some (p', a') \<and>
     hp_home p' = hp_home p \<and> auth_user (fst a') = None \<and>
     map_option sb_timer (hp_bar p) = Some (Some (550, ''a'')) \<and>
     map_option sb_timer (hp_bar p') = Some (Some (800, ''a''))"
proof -
  obtain p a where run: "home_session_run home_session_demo [HSPage (PBar (SType 50 ''a''))] = Some (p, a)"
    and pa: "map_option sb_timer (hp_bar p) = Some (Some (550, ''a'')) \<and> map_option sb_query (hp_bar p) = Some ''a''
             \<and> auth_user (fst a) = Some demo_user
             \<and> \<not> auth_loading (fst a) \<and> hp_clock p = 50"
    by (simp add: home_session_demo_def page_loaded_eq session_unfold page_unfold)
  have reach: "home_session_reach (p, a)" using home_session_demo_reach run by (rule home_session_run_reach)
  obtain as n where a: "a = (as, n)" by (cases a)
  have q: "page_quiet 300 p" using pa by (auto simp: page_quiet_def)
  have i: "page_inv (page_at 300 p)"
    using home_session_reach_inv [OF reach] by (simp add: page_inv_at)
  obtain p' where st: "page_settle page_fuel True (page_at 300 p) = Some p'"
    using context_render [OF i] by blast
  have step: "home_session_step (p, a) (HSSession 300 ClickLogout) = Some (p', (logout as, n))"
    using pa q st unfolding a by (simp add: logout_def)
  have u: "auth_user (fst (logout as, n)) = None" by (simp add: logout_def)
  have "hp_home p' = hp_home p \<and> hp_bar p' = map_option (\<lambda>st. sb_search_effect (st\<lparr>sb_now := 300\<rparr>)) (hp_bar p)"
    using session_change_keeps_feed [OF reach step] by simp
  with pa step u run show ?thesis
    by (auto simp: sb_search_effect_def sb_delay_def)
qed

end
