(* ===== verification/Spec2Isabelle.thy ===== *)
theory Spec2Isabelle
  imports Actions Routes HomePage ProfilePage Composer Shell Views HomeSession
begin

text \<open>
  \<^bold>\<open>A verified model of the blog client (src/blog/src).\<close>

  The program is a React single-page client of a blog API. Its parts, and the theory that
  models each, are:

  \<^item> \<^bold>\<open>Prelude\<close>: the JavaScript idioms the components share, as HOL functions:
    truthiness and \<open>||\<close> chains (\<open>js_or_default\<close>), optional chaining
    (\<open>js_first\<close>), object spread on association lists (\<open>obj_set\<close>,
    \<open>obj_spread\<close>; lemma \<open>map_of_obj_spread\<close>: later keys win), \<open>trim\<close>
    (\<open>js_trim\<close>), rendering of counts (\<open>js_num_str\<close>), removal by index
    (\<open>remove_nth\<close>) and total indexing (\<open>nth_opt\<close>), with the collections
    \<open>js_simps\<close> and \<open>state_simps\<close>.
  \<^item> \<^bold>\<open>Api\<close>: the records the server sends (\<open>user\<close>, \<open>post\<close>,
    \<open>comment\<close>, a paginated \<open>page\<close>, \<open>auth_payload\<close>,
    \<open>like_payload\<close>, \<open>error_body\<close>), the requests (\<open>api_request\<close>) and
    the failures (\<open>api_error\<close>); an answer is \<open>'a api_result = api_error + 'a\<close>,
    \<open>Inl\<close> the rejected promise. The axios instance (services/api, not under src/) is
    modelled from the specification (\<open>classify\<close>), and so is the service's endpoint
    table (section 6), as the typing \<open>api_typed\<close> of requests.
  \<^item> \<^bold>\<open>Urls\<close>: the URLs the client builds: \<open>new URLSearchParams(query)\<close> of
    Home's \<open>fetchPosts\<close> (\<open>form_urlencode\<close>, \<open>fetch_url\<close>, strings as UTF-8
    bytes), with the inverse the service applies (\<open>parse_query\<close>) as the reference of
    the round trip.
  \<^item> \<^bold>\<open>Session\<close>: contexts/AuthContext.jsx. \<open>auth_state\<close> holds
    \<open>user\<close>, \<open>loading\<close>, localStorage (\<open>storage\<close>) and the toasts; each
    async handler is split at its \<open>await\<close> into a request and a completion
    (\<open>login_request\<close>/\<open>login_done\<close>, \<open>register_done\<close>,
    \<open>fetch_user_profile_done\<close>, \<open>update_profile_done\<close>, \<open>logout\<close>).
    \<open>auth_sys_step\<close> is the provider with its requests in flight, driven by
    \<open>auth_event\<close>s that only the rendered forms can fire; \<open>auth_reach\<close> is
    its reachable set. \<open>session_abs\<close> abstracts a state to the Session Store of the
    specification (status, identity, the two tokens), \<open>spec_session_op\<close> is that
    store's operations (restore, login, register, logout, update), and
    \<open>session_op_of\<close> maps each event of the provider to the operation it performs.
  \<^item> \<^bold>\<open>Feed\<close>: pages/Home.jsx with the delete handler of
    components/PostCard.jsx. \<open>home_state\<close> is Home's \<open>useState\<close> cells;
    \<open>home_sys\<close> pairs it with the list of requests in flight
    (\<open>FetchReq\<close>, \<open>MoreReq\<close>, \<open>DeleteReq\<close>, the last carrying the
    \<open>posts\<close> snapshot of the card's render). \<open>home_sys_step\<close> takes a user
    event or the answer to any request in flight, in any order.
  \<^item> \<^bold>\<open>Actions\<close>: the like button of PostCard.jsx and pages/PostDetail.jsx
    (post fetch, like, comment form, delete, the author's buttons \<open>detail_can_edit\<close>
    and the counts shown \<open>detail_counts\<close>). The like protocol is one machine
    \<open>like_sys_step\<close> parametric in the client's click and answer handlers, with a
    server that toggles (\<open>like_server\<close>); \<open>card_like_sys_step\<close> and
    \<open>detail_like_sys_step\<close> instantiate it with each component's handlers.
    \<open>detail_sys_step\<close> is the comment form with submissions in flight.
  \<^item> \<^bold>\<open>Search\<close>: components/SearchBar.jsx. \<open>sb_state\<close> is the
    input, the filters, and the pending \<open>setTimeout\<close> (due time and text); time is
    explicit: every event carries its time, and \<open>sb_advance\<close> fires a due timer
    first. \<open>sb_step\<close> returns the calls made to \<open>onSearch\<close> and
    \<open>onFilter\<close> (\<open>sb_emit\<close>).
  \<^item> \<^bold>\<open>Routes\<close>: App.jsx's route table (\<open>app_render\<close>, with React
    Router 6's case-insensitive matching and trailing slashes), Navbar.jsx's links
    (\<open>nav_links\<close>) and PostCard's links (\<open>post_link\<close>, \<open>edit_link\<close>), with
    \<open>dec_parse\<close>, the reading of a decimal id, as the reference of their round trip.
  \<^item> \<^bold>\<open>Shell\<close>: the navigation bar as a machine (\<open>shell_step\<close>) over the
    session: location, mobile menu, \<open>handleLogout\<close>; what is shown is the route table
    at the location (\<open>shell_view\<close>).
  \<^item> \<^bold>\<open>HomePage\<close>: Home with its child SearchBar as React runs them
    (\<open>page_step\<close>). Home renders a bare spinner while it loads with no posts, so the
    bar is unmounted then and mounted afresh after; every render of Home hands the bar new
    \<open>onSearch\<close>/\<open>onFilter\<close> functions, so both of its effects run again
    (\<open>page_settle\<close>); \<open>setFilters\<close> is skipped only for the very object Home
    holds, so filter objects carry an identity (\<open>hp_bar_obj\<close>, \<open>hp_home_obj\<close>).
    The events are the bar's actions, its timer, and Home's own answers and clicks.
  \<^item> \<^bold>\<open>ProfilePage\<close>: pages/Profile.jsx (\<open>profile_step\<close>) over the
    session machine: its save awaits the session's \<open>updateProfile\<close>, so the page's
    save and its answer are steps of \<open>auth_sys_step\<close> as well.
  \<^item> \<^bold>\<open>Composer\<close>: pages/CreatePost.jsx (\<open>composer_step\<close>): the form,
    the \<open>FileReader\<close>s of picked images and the create request, all in flight at
    once and finished in any order.
  \<^item> \<^bold>\<open>Views\<close>: the JSX of PostCard, Home, PostDetail, Profile, SearchBar and
    CreatePost as view trees
    (\<open>vnode\<close>: texts, icons, images, links with their target, buttons with their handler
    and enabled flag, forms, inputs, keyed list items), one function per render
    (\<open>card_view\<close>, \<open>home_view\<close>, \<open>detail_view\<close>, \<open>profile_view\<close>,
    \<open>sb_view\<close>, \<open>composer_view\<close>), read by \<open>vlinks\<close>, \<open>vbuttons\<close>,
    \<open>vtexts\<close>, \<open>vinputs\<close>, \<open>voptions\<close>. The cards of
    the feed keep their own state by key (\<open>cards_reconcile\<close>); \<open>feed_ui_step\<close> is
    the feed machine with its mounted cards. The lemmas follow the links shown through the
    route table and read the counters and buttons the user sees.
  \<^item> \<^bold>\<open>HomeSession\<close>: Home under the session machine (\<open>home_session_step\<close>).
    Home consumes the auth context, whose value is a new object on every render of the
    provider, so every change of the provider's state (\<open>session_renders\<close>) renders Home
    and re-runs SearchBar's effects; \<open>page_inv\<close> (SearchBar mounted exactly when shown,
    holding Home's filter object) is the invariant that makes such a render harmless.
  \<^item> This theory states the properties of the home page as a whole (the bar feeding the
    feed controller).

  \<^bold>\<open>Conventions.\<close> React's \<open>setState\<close> is a functional record update; an
  update with a value equal by \<open>Object.is\<close> is skipped (a string or a number), an
  object literal is never equal. A closure that reads state reads the render it was
  created in: the model passes that snapshot explicitly (PostCard's \<open>posts\<close> via
  \<open>DeleteReq\<close>, PostDetail's \<open>newComment\<close> via \<open>comment_submit\<close>).
  A step returns \<open>None\<close> when the event cannot happen (a hidden or disabled button,
  no such request in flight), never for an error of the program: errors are
  \<open>Inl\<close> answers and their branches are explicit.

  \<^bold>\<open>Bounds.\<close> \<open>page_settle\<close> runs the render cascade with fuel
  \<open>page_fuel\<close> = 3; \<open>page_settle_total\<close> proves it never runs out, so the
  fuel loses no behaviour. \<open>app_resolve\<close> follows \<open><Navigate>\<close> elements with fuel;
  \<open>redirects_settle\<close> proves two renders are enough for every location and session
  state, so fuel 2 loses nothing. The debounce delay is the source's 500 ms
  (\<open>sb_delay\<close>); theorems are stated for every time, not for that value only.

  \<^bold>\<open>What the lemmas show.\<close> Per component: the invariant of the reachable states
  (\<open>auth_reach_inv\<close>, \<open>home_loading_has_fetch\<close>,
  \<open>card_like_consistent\<close>, \<open>detail_reach_inv\<close>); the behaviour of each
  handler on each branch (fetch, load more, delete, like, comment, login and profile
  restore); the refinement of the specification's Session Store by the provider: every
  step of the provider, except an update answered after sign-out, is the store operation
  of its event on the abstract session (\<open>session_refines_spec\<close>); the debounce
  contract; the route guards. Where the
  code departs from what it means to do the theorems prove the departure on a concrete
  run (stale fetch results applied, duplicated pages, a deletion that drops a loaded page,
  a profile update applied after sign-out, a double like toggling twice, a card that keeps
  its like count across a refetch, comment and caption counters that limit nothing
  (\<open>comment_length_unbounded\<close>, \<open>caption_length_unbounded\<close>); the findings of
  the project file name them. Every link the pages show, except the card's edit link,
  leads to a page (\<open>shown_links_route\<close>). A change of the session while Home is shown
  sends no request (\<open>session_change_keeps_feed\<close>).

  \<^bold>\<open>Not modelled.\<close> pages/Login.jsx and pages/Register.jsx, which App.jsx
  imports but the repository does not contain (the session's \<open>login\<close> and
  \<open>register\<close>, which they would call, are modelled); a location typed by hand into the
  address bar for the post page (the model of PostDetail takes the numeric id its links
  carry, \<open>post_link_roundtrip\<close>); layout and styling of the JSX (class names, the
  grouping \<open>div\<close>s), the dates (\<open>toLocaleDateString\<close> depends on the browser's
  locale), the navigation bar's markup beyond its links and buttons (modelled by
  \<open>shell_step\<close>), and SearchBar inside Home's view (a \<open>VSearchBar\<close> leaf; its own
  render is \<open>sb_view\<close>);
  the browser's rendering of the image preview (a file stands for its data URL);
  the axios instance and its interceptors (services/api, not under src/: the token
  header is assumed attached); the mount of PostDetail's like and
  comment machines inside the route table; the display timing of toasts.
\<close>

subsection \<open>The home page: Home with SearchBar\<close>

text \<open>
  C20. A burst of typing in the mounted search bar, each keystroke less than 500 ms after the
  one before, followed by its timer, makes Home fetch exactly once, with the last text
  typed, or not at all when that text is already Home's search; the bar stays mounted
  (section 4.5, the debouncer feeding the feed controller).
\<close>

theorem typed_search_fetches_once:
  assumes "hp_bar p = Some st" and "hp_bar_obj p = hp_home_obj p" and "home_posts (fst (hp_home p)) \<noteq> []"
    and "typing_burst (hp_clock p) (sb_query st) ks" and "ks \<noteq> []"
    and "case sb_timer st of None \<Rightarrow> True | Some (d, _) \<Rightarrow> fst (hd ks) < d"
    and "page_run p (map PBar (keystrokes ks) @ [PTimer]) = Some p'"
  shows "snd (hp_home p') = snd (hp_home p) @
           (if snd (last ks) = home_search (fst (hp_home p)) then []
            else [FetchReq (fetch_query ((fst (hp_home p))\<lparr>home_search := snd (last ks)\<rparr>) [])])
     \<and> home_search (fst (hp_home p')) = snd (last ks) \<and> hp_bar p' \<noteq> None"
proof -
  have "page_run p (map PBar (keystrokes ks) @ [PTimer]) =
          page_step (p\<lparr>hp_clock := fst (last ks),
                   hp_bar := Some (st\<lparr>sb_query := snd (last ks),
                     sb_timer := Some (fst (last ks) + sb_delay, snd (last ks)), sb_now := fst (last ks)\<rparr>)\<rparr>) PTimer"
    using page_burst [OF assms(1,4,5,6)] by (simp add: page_run_append split: option.splits)
  with assms(2,3,7) show ?thesis
    by (cases "hp_home p")
       (auto simp: page_at_def sb_advance_def page_fuel_def numeral_3_eq_3 bar_shown_def
          offer_filter_def handle_search_def fetch_posts_def sb_search_effect_def split: if_splits)
qed

text \<open>
  C21. While the server answers every fetch with an empty page, the home page never settles:
  each answer removes the spinner, which mounts SearchBar; its filter effect hands Home a
  new filter object, Home fetches again, the spinner returns and unmounts the bar. After
  any number of such answers one fetch is in flight and only the spinner is shown.
\<close>

theorem empty_feed_never_settles:
  assumes "page_spinning p" and "sorted (map fst ans)"
    and "\<forall>(t, pg)\<in>set ans. hp_clock p \<le> t \<and> page_results pg = []"
  shows "\<exists>p'. page_run p (fetch_answers ans) = Some p' \<and> page_spinning p'"
  using assms
proof (induction ans arbitrary: p)
  case Nil
  then show ?case by (simp add: fetch_answers_def)
next
  case (Cons a ans)
  obtain t pg where a: "a = (t, pg)" by fastforce
  with Cons.prems obtain p1 where step: "page_step p (PHome t (HFetchDone 0 (Inr pg))) = Some p1"
    and spin: "page_spinning p1" and clk: "hp_clock p1 = t"
    using spin_round by fastforce
  from Cons.prems a clk have "\<forall>(t', pg')\<in>set ans. hp_clock p1 \<le> t' \<and> page_results pg' = []"
    by auto
  with Cons.IH [OF spin] Cons.prems(2) obtain p' where
    "page_run p1 (fetch_answers ans) = Some p'" "page_spinning p'" by auto
  with step a show ?case by (auto simp: fetch_answers_def)
qed

text \<open>
  C22. The render cascade of the page ends: mounting, re-running and unmounting SearchBar and
  the filter updates they cause come to rest within three rounds, from every state.
\<close>

theorem page_settle_total: "\<exists>p'. page_settle page_fuel r p = Some p'"
proof -
  have "page_settle (Suc (Suc (Suc 0))) r p \<noteq> None"
  proof (cases "bar_shown (fst (hp_home p))")
    case shown: True
    show ?thesis
    proof (cases "hp_bar p")
      case None
      let ?p1 = "p\<lparr>hp_bar := Some (fst (sb_mount (hp_clock p))), hp_bar_obj := hp_objs p,
                   hp_objs := Suc (hp_objs p)\<rparr>"
      have "offer_filter ?p1 = Some p2 \<Longrightarrow> page_settle (Suc (Suc 0)) True p2 \<noteq> None" for p2
        using offer_filter_same [of ?p1 p2] page_settle_synced [of p2] by auto
      with shown None show ?thesis by (auto simp: Let_def split: option.splits)
    next
      case (Some st)
      let ?p1 = "p\<lparr>hp_bar := Some (sb_search_effect st)\<rparr>"
      have "offer_filter ?p1 = Some p2 \<Longrightarrow> page_settle (Suc (Suc 0)) True p2 \<noteq> None" for p2
        using offer_filter_same [of ?p1 p2] page_settle_synced [of p2] by auto
      with shown Some show ?thesis by (auto simp: Let_def split: option.splits)
    qed
  qed simp
  then show ?thesis by (simp add: page_fuel_def numeral_3_eq_3)
qed



text \<open>
  The first page is requested twice: Home's mount fetches with no filter, and when that
  answer removes the spinner, SearchBar mounts and its default filter object makes Home
  fetch the same first page again (section 4.5 asks that no redundant fetch be made).
\<close>

theorem first_page_fetched_twice:
  "\<exists>p. page_run page_start [PHome 10 (HFetchDone 0 (Inr (demo_page [demo_post 1 7] None)))] = Some p
     \<and> snd home_start = [FetchReq []]
     \<and> snd (hp_home p) = [FetchReq [(''author'', []), (''ordering'', ''-created_at'')]]
     \<and> home_posts (fst (hp_home p)) = [demo_post 1 7] \<and> hp_bar p \<noteq> None"
  by (simp add: page_start_def feed_unfold page_quiet_def page_at_def page_fuel_def numeral_3_eq_3
      bar_shown_def offer_filter_def sb_mount_def sb_search_effect_def sb_default_filters_def)

text \<open>
  A filter chosen while the feed is empty is lost: the fetch it causes brings back the
  spinner, which unmounts SearchBar; when the answer arrives the bar mounts afresh with
  its default filters and resets Home's filters to them, while Home keeps the old search
  text the bar no longer shows, and the page spins again.
\<close>

theorem filter_lost_on_empty_results:
  "\<exists>p. page_run page_start
        [PHome 10 (HFetchDone 0 (Inr (demo_page [demo_post 1 7] None))),
         PHome 20 (HFetchDone 0 (Inr (demo_page [demo_post 1 7] None))),
         PBar (SType 30 ''zzz''), PTimer,
         PHome 600 (HFetchDone 0 (Inr (demo_page [] None))),
         PBar (SToggle 700), PBar (SFilter 800 ''ordering'' ''title''),
         PHome 900 (HFetchDone 0 (Inr (demo_page [] None)))] = Some p
     \<and> home_filters (fst (hp_home p)) = sb_default_filters \<and> home_search (fst (hp_home p)) = ''zzz''
     \<and> page_spinning p"
  by (simp add: page_start_def feed_unfold page_quiet_def page_at_def page_fuel_def numeral_3_eq_3
      bar_shown_def offer_filter_def sb_mount_def sb_search_effect_def sb_default_filters_def
      sb_advance_def set_search_query_def sb_delay_def handle_filter_change_def sb_orderings_def
      page_spinning_def Let_def)

text \<open>
  "Clear All" with default filters re-sends the query just answered: the new default
  filter object equals the current filters in content, yet Home fetches again with the
  same search text and filters (section 4.5: identical emissions are to be suppressed).
\<close>

theorem clear_all_resends_query:
  "\<exists>p1 p2 q. page_run page_loaded [PBar (SType 100 ''a''), PTimer] = Some p1
     \<and> snd (hp_home p1) = [FetchReq sb_default_filters, FetchReq q]
     \<and> page_run p1 [PHome 700 (HFetchDone 0 (Inr (demo_page [demo_post 1 7] None))),
                    PHome 710 (HFetchDone 0 (Inr (demo_page [demo_post 1 7] None))),
                    PBar (SClear 800)] = Some p2
     \<and> snd (hp_home p2) = [FetchReq q]
     \<and> home_search (fst (hp_home p2)) = ''a'' \<and> home_filters (fst (hp_home p2)) = home_filters (fst (hp_home p1))"
  by (simp add: page_loaded_eq page_unfold)

text \<open>
  A feed answer inside the quiet window postpones the search: the answer renders Home,
  whose new \<open>handleSearch\<close> re-runs SearchBar's search effect and re-arms the timer, so
  the text typed at 100 ms reaches Home at 1050 ms instead of 600 ms (section 4.5
  counts the quiet window from the last keystroke only).
\<close>

theorem search_delayed_by_feed_answer:
  "\<exists>p p'. page_run page_loaded
        [PBar (SType 100 ''a''), PHome 550 (HFetchDone 0 (Inr (demo_page [demo_post 1 7] None)))] = Some p
     \<and> home_search (fst (hp_home p)) = []
     \<and> map_option sb_timer (hp_bar p) = Some (Some (1050, ''a''))
     \<and> page_step p PTimer = Some p' \<and> hp_clock p' = 1050 \<and> home_search (fst (hp_home p')) = ''a''"
  by (simp add: page_loaded_eq page_unfold)

text \<open>
  C27. Every request the home page has in flight is a request of the service's API
  (section 6): each feed fetch's URL carries a query string that decodes to distinct
  entries among \<open>search\<close>, \<open>author\<close> and \<open>ordering\<close>, and each delete addresses
  \<open>/posts/{id}/\<close>; load-more requests go to the cursor URL the service handed out.
\<close>

theorem page_requests_typed:
  assumes "page_reach p"
  shows "\<forall>r\<in>set (snd (hp_home p)). (case r of MoreReq _ \<Rightarrow> True | _ \<Rightarrow> api_typed (home_request r))"
proof
  fix r assume r: "r \<in> set (snd (hp_home p))"
  have ok: "fetch_ok r" using page_reach_wf [OF assms] r by (simp add: page_wf_def home_wf_def list_all_iff)
  show "case r of MoreReq _ \<Rightarrow> True | _ \<Rightarrow> api_typed (home_request r)"
  proof (cases r)
    case (FetchReq q)
    have "api_typed (ApiGet (''/posts/?'' @ form_urlencode q) [])"
      by (rule api_typed.feed [OF parse_form_urlencode]) (use ok FetchReq in auto)
    then show ?thesis using FetchReq by (simp add: fetch_url_def)
  next
    case (DeleteReq pid snap)
    have "api_typed (ApiDelete (''/posts/'' @ js_num_str pid @ ''/''))" by (rule api_typed.post_delete)
    then show ?thesis using DeleteReq by simp
  qed simp
qed

subsection \<open>Witnesses\<close>

theorem typed_search_fetches_once_witness:
  "\<exists>p'. page_run page_loaded (map PBar (keystrokes [(100, ''a''), (200, ''ab'')]) @ [PTimer]) = Some p'
     \<and> snd (hp_home p') = [FetchReq sb_default_filters,
                           FetchReq ((''search'', ''ab'') # sb_default_filters)]"
proof -
  let ?ks = "[(100::nat, ''a''), (200, ''ab'')]"
  obtain st where bar: "hp_bar page_loaded = Some st" and
    st: "st = \<lparr>sb_query = [], sb_filters = sb_default_filters, sb_show_filters = False,
       sb_timer = Some (510, []), sb_now = 10\<rparr>"
    by (simp add: page_loaded_eq)
  have h2: "hp_bar_obj page_loaded = hp_home_obj page_loaded" by (simp add: page_loaded_eq)
  have h3: "home_posts (fst (hp_home page_loaded)) \<noteq> []" by (simp add: page_loaded_eq)
  have h4: "typing_burst (hp_clock page_loaded) (sb_query st) ?ks"
    by (simp add: page_loaded_eq st sb_delay_def)
  have h6: "case sb_timer st of None \<Rightarrow> True | Some (d, _) \<Rightarrow> fst (hd ?ks) < d" by (simp add: st)
  obtain p' where run: "page_run page_loaded (map PBar (keystrokes ?ks) @ [PTimer]) = Some p'"
    by (simp add: page_loaded_eq page_unfold)
  have "snd (hp_home p') = snd (hp_home page_loaded) @
           (if snd (last ?ks) = home_search (fst (hp_home page_loaded)) then []
            else [FetchReq (fetch_query ((fst (hp_home page_loaded))\<lparr>home_search := snd (last ?ks)\<rparr>) [])])"
    using typed_search_fetches_once [OF bar h2 h3 h4 _ h6 run] by simp
  also have "\<dots> = [FetchReq sb_default_filters, FetchReq ((''search'', ''ab'') # sb_default_filters)]"
    by (simp add: page_loaded_eq feed_unfold sb_default_filters_def)
  finally show ?thesis using run by blast
qed

theorem empty_feed_never_settles_witness:
  "\<exists>p'. page_run page_start (fetch_answers [(10, demo_page [] None), (20, demo_page [] None)]) = Some p'
     \<and> page_spinning p'"
proof -
  have "sorted (map fst [(10::nat, demo_page [] None), (20, demo_page [] None)])" by simp
  moreover have "\<forall>(t, pg)\<in>set [(10::nat, demo_page [] None), (20, demo_page [] None)].
                   hp_clock page_start \<le> t \<and> page_results pg = []"
    by (simp add: page_start_def demo_page_def)
  ultimately show ?thesis using empty_feed_never_settles [OF page_spinning_start] by blast
qed

theorem page_requests_typed_witness:
  "page_reach page_loaded \<and> FetchReq sb_default_filters \<in> set (snd (hp_home page_loaded)) \<and>
   api_typed (home_request (FetchReq sb_default_filters))"
proof -
  have r: "FetchReq sb_default_filters \<in> set (snd (hp_home page_loaded))" by (simp add: page_loaded_eq)
  have "api_typed (home_request (FetchReq sb_default_filters))"
    using page_requests_typed [OF page_loaded_reach] r by fastforce
  with r page_loaded_reach show ?thesis by blast
qed

end
